theory Spec2Isabelle
  imports Main "HOL-Library.Word" "HOL-Library.Sublist"
begin

unbundle bit_operations_syntax

section \<open>JavaScript strings\<close>

text \<open>
  A JavaScript string is a sequence of UTF-16 code units. The modules compare strings,
  cut prefixes off them, split them at line feeds and append to them; all of these work
  on code units, so a string is modelled as the list of its code units.
  \<open>js\<close> writes an ASCII literal of the source as such a list.
\<close>

type_synonym jsstring = "nat list"

definition js :: "string \<Rightarrow> jsstring" where
  "js s = map of_char s"

text \<open>\<^verbatim>\<open>line.startsWith(p)\<close> and \<^verbatim>\<open>line.slice(6)\<close>.\<close>

definition startsWith :: "jsstring \<Rightarrow> jsstring \<Rightarrow> bool" where
  "startsWith s p = (take (length p) s = p)"

definition slice_from :: "nat \<Rightarrow> jsstring \<Rightarrow> jsstring" where
  "slice_from n s = drop n s"

text \<open>
  \<^verbatim>\<open>s.split(sep)\<close> for a separator of one code unit: the pieces between the
  separators, in order; a string without separator is its own single piece, and the
  empty string splits into one empty piece.
\<close>

fun split_acc :: "nat \<Rightarrow> jsstring \<Rightarrow> jsstring \<Rightarrow> jsstring list" where
  "split_acc sep cur [] = [rev cur]"
| "split_acc sep cur (c # cs) =
     (if c = sep then rev cur # split_acc sep [] cs else split_acc sep (c # cur) cs)"

definition split :: "jsstring \<Rightarrow> nat \<Rightarrow> jsstring list" where
  "split s sep = split_acc sep [] s"

text \<open>
  White space of ECMAScript (WhiteSpace and LineTerminator): what
  \<^verbatim>\<open>String.prototype.trim\<close> removes and what \<^verbatim>\<open>\s\<close> matches in a
  regular expression.
\<close>

definition is_js_space :: "nat \<Rightarrow> bool" where
  "is_js_space c =
     (c = 0x09 \<or> c = 0x0A \<or> c = 0x0B \<or> c = 0x0C \<or> c = 0x0D \<or> c = 0x20 \<or> c = 0xA0
      \<or> c = 0x1680 \<or> (0x2000 \<le> c \<and> c \<le> 0x200A) \<or> c = 0x2028 \<or> c = 0x2029
      \<or> c = 0x202F \<or> c = 0x205F \<or> c = 0x3000 \<or> c = 0xFEFF)"

definition trim :: "jsstring \<Rightarrow> jsstring" where
  "trim s = rev (dropWhile is_js_space (rev (dropWhile is_js_space s)))"

section \<open>The streaming UTF-8 decoder\<close>

text \<open>
  \<^verbatim>\<open>new TextDecoder()\<close> is the platform's UTF-8 decoder, in replacement mode and
  with the byte order mark removed. \<^verbatim>\<open>decoder.decode(value, { stream: true })\<close>
  keeps the decoder's state between calls. The model follows the UTF-8 decoder of the
  Encoding Standard: the handler reads one byte and either continues, emits a code
  point, or emits U+FFFD; a byte that cannot continue a sequence is read again in the
  reset state.
\<close>

type_synonym byte = "8 word"

record utf8_state =
  code_point :: nat
  bytes_seen :: nat
  bytes_needed :: nat
  lower_boundary :: nat
  upper_boundary :: nat

definition utf8_reset :: utf8_state where
  "utf8_reset = \<lparr>code_point = 0, bytes_seen = 0, bytes_needed = 0,
                  lower_boundary = 0x80, upper_boundary = 0xBF\<rparr>"

text \<open>The handler when no byte is pending (bytes needed is 0).\<close>

definition utf8_lead :: "utf8_state \<Rightarrow> nat \<Rightarrow> utf8_state \<times> nat list" where
  "utf8_lead st b =
     (if b \<le> 0x7F then (st, [b])
      else if 0xC2 \<le> b \<and> b \<le> 0xDF then
        (st\<lparr>bytes_needed := 1, code_point := b AND 0x1F\<rparr>, [])
      else if 0xE0 \<le> b \<and> b \<le> 0xEF then
        (st\<lparr>lower_boundary := (if b = 0xE0 then 0xA0 else lower_boundary st),
            upper_boundary := (if b = 0xED then 0x9F else upper_boundary st),
            bytes_needed := 2, code_point := b AND 0xF\<rparr>, [])
      else if 0xF0 \<le> b \<and> b \<le> 0xF4 then
        (st\<lparr>lower_boundary := (if b = 0xF0 then 0x90 else lower_boundary st),
            upper_boundary := (if b = 0xF4 then 0x8F else upper_boundary st),
            bytes_needed := 3, code_point := b AND 0x7\<rparr>, [])
      else (st, [0xFFFD]))"

definition utf8_handler :: "utf8_state \<Rightarrow> nat \<Rightarrow> utf8_state \<times> nat list" where
  "utf8_handler st b =
     (if bytes_needed st = 0 then utf8_lead st b
      else if \<not> (lower_boundary st \<le> b \<and> b \<le> upper_boundary st) then
        (case utf8_lead utf8_reset b of (st', out) \<Rightarrow> (st', 0xFFFD # out))
      else
        (let st1 = st\<lparr>lower_boundary := 0x80, upper_boundary := 0xBF,
                       code_point := push_bit 6 (code_point st) OR (b AND 0x3F),
                       bytes_seen := bytes_seen st + 1\<rparr>
         in if bytes_seen st1 \<noteq> bytes_needed st1 then (st1, [])
            else (utf8_reset, [code_point st1])))"

fun utf8_run :: "utf8_state \<Rightarrow> byte list \<Rightarrow> utf8_state \<times> nat list" where
  "utf8_run st [] = (st, [])"
| "utf8_run st (b # bs) =
     (case utf8_handler st (unat b) of
        (st1, out1) \<Rightarrow> (case utf8_run st1 bs of (st2, out2) \<Rightarrow> (st2, out1 @ out2)))"

text \<open>A code point as UTF-16: itself, or a surrogate pair above U+FFFF.\<close>

definition utf16_units :: "nat \<Rightarrow> jsstring" where
  "utf16_units c =
     (if c < 0x10000 then [c]
      else [0xD800 + drop_bit 10 (c - 0x10000), 0xDC00 + ((c - 0x10000) AND 0x3FF)])"

text \<open>
  Serialising the decoded code points: the first code point of the stream is dropped
  when it is the byte order mark U+FEFF; BOM seen is set from then on.
\<close>

fun serialize :: "bool \<Rightarrow> nat list \<Rightarrow> bool \<times> jsstring" where
  "serialize seen [] = (seen, [])"
| "serialize seen (c # cs) =
     (if \<not> seen \<and> c = 0xFEFF then serialize True cs
      else (case serialize True cs of (seen', out) \<Rightarrow> (seen', utf16_units c @ out)))"

record text_decoder =
  utf8 :: utf8_state
  bom_seen :: bool

definition new_TextDecoder :: text_decoder where
  "new_TextDecoder = \<lparr>utf8 = utf8_reset, bom_seen = False\<rparr>"

text \<open>
  \<^verbatim>\<open>decoder.decode(value, { stream: true })\<close>: the bytes of the chunk run through
  the handler from the state the previous call left; nothing is flushed at the end.
\<close>

definition decode_stream :: "text_decoder \<Rightarrow> byte list \<Rightarrow> text_decoder \<times> jsstring" where
  "decode_stream d chunk =
     (case utf8_run (utf8 d) chunk of
        (u, cps) \<Rightarrow>
          (case serialize (bom_seen d) cps of
             (seen, out) \<Rightarrow> (\<lparr>utf8 = u, bom_seen = seen\<rparr>, out)))"

section \<open>JSON values and \<^verbatim>\<open>JSON.parse\<close>\<close>

text \<open>
  A number keeps the exact decimal value of its literal: the sign, the digits and the
  power of ten, \<open>\<plusminus> digits \<times> 10 ^ exponent\<close>. The engine rounds that value to a
  double. The modules only test a number for being zero and convert it to a string.
\<close>

datatype jsnum = JsNum (negative: bool) (digits: nat) (exponent: int)

datatype json =
    JNull
  | JBool bool
  | JNumber jsnum
  | JString jsstring
  | JArray "json list"
  | JObject "(jsstring \<times> json) list"

text \<open>
  The double nearest to a literal is zero when its digits are zero, or when its value
  is at most half of the least positive double, \<open>2 ^ -1075\<close> (the tie goes to zero).
\<close>

definition num_is_zero :: "jsnum \<Rightarrow> bool" where
  "num_is_zero n =
     (digits n = 0 \<or> (exponent n < 0 \<and> digits n * 2 ^ 1075 \<le> 10 ^ nat (- exponent n)))"

subsection \<open>The JSON grammar (ECMA-404), as \<^verbatim>\<open>JSON.parse\<close> reads it\<close>

definition is_json_ws :: "nat \<Rightarrow> bool" where
  "is_json_ws c = (c = 0x09 \<or> c = 0x0A \<or> c = 0x0D \<or> c = 0x20)"

definition skip_ws :: "jsstring \<Rightarrow> jsstring" where
  "skip_ws s = dropWhile is_json_ws s"

definition is_digit :: "nat \<Rightarrow> bool" where
  "is_digit c = (0x30 \<le> c \<and> c \<le> 0x39)"

definition hex_digit :: "nat \<Rightarrow> nat option" where
  "hex_digit c =
     (if 0x30 \<le> c \<and> c \<le> 0x39 then Some (c - 0x30)
      else if 0x41 \<le> c \<and> c \<le> 0x46 then Some (c - 0x41 + 10)
      else if 0x61 \<le> c \<and> c \<le> 0x66 then Some (c - 0x61 + 10)
      else None)"

definition hex4 :: "nat \<Rightarrow> nat \<Rightarrow> nat \<Rightarrow> nat \<Rightarrow> nat option" where
  "hex4 a b c d =
     (case (hex_digit a, hex_digit b, hex_digit c, hex_digit d) of
        (Some w, Some x, Some y, Some z) \<Rightarrow> Some (((w * 16 + x) * 16 + y) * 16 + z)
      | _ \<Rightarrow> None)"

text \<open>
  The characters of a string after its opening quote, up to the closing quote:
  no raw control character, and the escapes \<^verbatim>\<open>\" \\ \/ \b \f \n \r \t \uXXXX\<close>.
  The result is the string and the text after the closing quote.
\<close>

fun json_string :: "jsstring \<Rightarrow> jsstring \<Rightarrow> (jsstring \<times> jsstring) option" where
  "json_string acc [] = None"
| "json_string acc (c # cs) =
     (if c = 0x22 then Some (rev acc, cs)
      else if c = 0x5C then
        (case cs of
           [] \<Rightarrow> None
         | e # es \<Rightarrow>
             if e = 0x22 then json_string (0x22 # acc) es
             else if e = 0x5C then json_string (0x5C # acc) es
             else if e = 0x2F then json_string (0x2F # acc) es
             else if e = 0x62 then json_string (0x08 # acc) es
             else if e = 0x66 then json_string (0x0C # acc) es
             else if e = 0x6E then json_string (0x0A # acc) es
             else if e = 0x72 then json_string (0x0D # acc) es
             else if e = 0x74 then json_string (0x09 # acc) es
             else if e = 0x75 then
               (case es of
                  h1 # h2 # h3 # h4 # r \<Rightarrow>
                    (case hex4 h1 h2 h3 h4 of
                       Some u \<Rightarrow> json_string (u # acc) r
                     | None \<Rightarrow> None)
                | _ \<Rightarrow> None)
             else None)
      else if c < 0x20 then None
      else json_string (c # acc) cs)"

definition digits_value :: "jsstring \<Rightarrow> nat" where
  "digits_value ds = foldl (\<lambda>a d. 10 * a + (d - 0x30)) 0 ds"

text \<open>
  A number: an optional minus, then \<^verbatim>\<open>0\<close> or a digit sequence that does not begin
  with \<^verbatim>\<open>0\<close>, an optional fraction with at least one digit, an optional exponent
  with at least one digit.
\<close>

definition json_int_part :: "jsstring \<Rightarrow> (jsstring \<times> jsstring) option" where
  "json_int_part s =
     (case s of
        [] \<Rightarrow> None
      | c # cs \<Rightarrow>
          if c = 0x30 then Some ([c], cs)
          else if is_digit c then Some (takeWhile is_digit s, dropWhile is_digit s)
          else None)"

definition json_fraction :: "jsstring \<Rightarrow> (jsstring \<times> jsstring) option" where
  "json_fraction s =
     (case s of
        [] \<Rightarrow> Some ([], s)
      | c # cs \<Rightarrow>
          if c = 0x2E then
            (if takeWhile is_digit cs = [] then None
             else Some (takeWhile is_digit cs, dropWhile is_digit cs))
          else Some ([], s))"

definition json_exp_digits :: "bool \<Rightarrow> jsstring \<Rightarrow> (int \<times> jsstring) option" where
  "json_exp_digits neg s =
     (if takeWhile is_digit s = [] then None
      else Some ((if neg then - int (digits_value (takeWhile is_digit s))
                  else int (digits_value (takeWhile is_digit s))),
                 dropWhile is_digit s))"

definition json_exponent :: "jsstring \<Rightarrow> (int \<times> jsstring) option" where
  "json_exponent s =
     (case s of
        [] \<Rightarrow> Some (0, s)
      | c # cs \<Rightarrow>
          if c = 0x65 \<or> c = 0x45 then
            (case cs of
               [] \<Rightarrow> None
             | g # gs \<Rightarrow>
                 if g = 0x2B then json_exp_digits False gs
                 else if g = 0x2D then json_exp_digits True gs
                 else json_exp_digits False cs)
          else Some (0, s))"

definition json_unsigned :: "bool \<Rightarrow> jsstring \<Rightarrow> (json \<times> jsstring) option" where
  "json_unsigned neg s =
     (case json_int_part s of
        None \<Rightarrow> None
      | Some (ip, r1) \<Rightarrow>
          (case json_fraction r1 of
             None \<Rightarrow> None
           | Some (fp, r2) \<Rightarrow>
               (case json_exponent r2 of
                  None \<Rightarrow> None
                | Some (e, r3) \<Rightarrow>
                    Some (JNumber (JsNum neg (digits_value (ip @ fp)) (e - int (length fp))),
                          r3))))"

definition json_number :: "jsstring \<Rightarrow> (json \<times> jsstring) option" where
  "json_number s =
     (case s of
        [] \<Rightarrow> None
      | c # cs \<Rightarrow> if c = 0x2D then json_unsigned True cs else json_unsigned False s)"

lemma skip_ws_length: "length (skip_ws s) \<le> length s"
  by (simp add: skip_ws_def length_dropWhile_le)

lemma skip_ws_Cons_length: "skip_ws s = c # cs \<Longrightarrow> length cs < length s"
  using skip_ws_length [of s] by simp

lemma json_string_length: "json_string acc s = Some (k, r) \<Longrightarrow> length r < length s"
proof (induction s arbitrary: acc rule: length_induct)
  case (1 s)
  show ?case
  proof (cases s)
    case Nil
    with 1 show ?thesis by simp
  next
    case (Cons c cs)
    have IH: "json_string a ys = Some (k, r) \<Longrightarrow> length ys < length (c # cs) \<Longrightarrow> length r < length ys"
      for a ys using "1.IH" Cons by blast
    from "1.prems" show ?thesis unfolding Cons
      by (auto split: if_splits list.splits option.splits dest!: IH)
  qed
qed

text \<open>
  A value, the elements of an array after its opening bracket, and the members of an
  object after its opening brace, by recursive descent. Each function returns what it
  read and the text after it. The comparison of lengths after a nested value is what makes
  the recursion well-founded; a nested value always consumes text
  (\<open>parse_value_length\<close> below), so the comparison never fails.
\<close>

function parse_value :: "jsstring \<Rightarrow> (json \<times> jsstring) option"
  and parse_elements :: "json list \<Rightarrow> jsstring \<Rightarrow> (json \<times> jsstring) option"
  and parse_members :: "(jsstring \<times> json) list \<Rightarrow> jsstring \<Rightarrow> (json \<times> jsstring) option"
where
  "parse_value s =
     (case skip_ws s of
        [] \<Rightarrow> None
      | c # cs \<Rightarrow>
          if c = 0x22 then
            (case json_string [] cs of
               None \<Rightarrow> None
             | Some (str, r) \<Rightarrow> Some (JString str, r))
          else if c = 0x5B then
            (case skip_ws cs of
               [] \<Rightarrow> None
             | d # ds \<Rightarrow> if d = 0x5D then Some (JArray [], ds) else parse_elements [] cs)
          else if c = 0x7B then
            (case skip_ws cs of
               [] \<Rightarrow> None
             | d # ds \<Rightarrow> if d = 0x7D then Some (JObject [], ds) else parse_members [] cs)
          else if startsWith (c # cs) (js ''true'') then Some (JBool True, drop 4 (c # cs))
          else if startsWith (c # cs) (js ''false'') then Some (JBool False, drop 5 (c # cs))
          else if startsWith (c # cs) (js ''null'') then Some (JNull, drop 4 (c # cs))
          else json_number (c # cs))"
| "parse_elements acc s =
     (case parse_value s of
        None \<Rightarrow> None
      | Some (v, r) \<Rightarrow>
          if length r < length s then
            (case skip_ws r of
               [] \<Rightarrow> None
             | d # ds \<Rightarrow>
                 if d = 0x2C then parse_elements (v # acc) ds
                 else if d = 0x5D then Some (JArray (rev (v # acc)), ds)
                 else None)
          else None)"
| "parse_members acc s =
     (case skip_ws s of
        [] \<Rightarrow> None
      | q # qs \<Rightarrow>
          if q = 0x22 then
            (case json_string [] qs of
               None \<Rightarrow> None
             | Some (k, r1) \<Rightarrow>
                 (case skip_ws r1 of
                    [] \<Rightarrow> None
                  | col # r2 \<Rightarrow>
                      if col = 0x3A then
                        (case parse_value r2 of
                           None \<Rightarrow> None
                         | Some (v, r3) \<Rightarrow>
                             if length r3 < length r2 then
                               (case skip_ws r3 of
                                  [] \<Rightarrow> None
                                | d # ds \<Rightarrow>
                                    if d = 0x2C then parse_members ((k, v) # acc) ds
                                    else if d = 0x7D then Some (JObject (rev ((k, v) # acc)), ds)
                                    else None)
                             else None)
                      else None))
          else None)"
  by pat_completeness auto
termination
proof (relation "measure (\<lambda>x. case x of
          Inl s \<Rightarrow> 2 * length s
        | Inr (Inl (acc, s)) \<Rightarrow> 2 * length s + 1
        | Inr (Inr (acc, s)) \<Rightarrow> 2 * length s + 1)", goal_cases)
  case 1 show ?case by simp
next
  case (2 s c cs d ds)
  then show ?case using skip_ws_Cons_length [of s c cs] by simp
next
  case (3 s c cs d ds)
  then show ?case using skip_ws_Cons_length [of s c cs] by simp
next
  case (4 acc s)
  then show ?case by simp
next
  case (5 acc s x2 v r d ds)
  then show ?case using skip_ws_Cons_length [of r d ds] by simp
next
  case (6 acc s q qs x2 k r1 col r2)
  then show ?case
    using skip_ws_Cons_length [of s q qs] json_string_length [of "[]" qs k r1]
      skip_ws_Cons_length [of r1 col r2] by simp
next
  case (7 acc s q qs x2 k r1 col r2 x2a v r3 d ds)
  then show ?case
    using skip_ws_Cons_length [of s q qs] json_string_length [of "[]" qs k r1]
      skip_ws_Cons_length [of r1 col r2] skip_ws_Cons_length [of r3 d ds] by simp
qed

declare parse_value.simps [simp del] parse_elements.simps [simp del] parse_members.simps [simp del]

text \<open>
  \<^verbatim>\<open>JSON.parse(text)\<close>: one value with white space around it and nothing else;
  \<open>None\<close> is the SyntaxError.
\<close>

definition JSON_parse :: "jsstring \<Rightarrow> json option" where
  "JSON_parse text =
     (case parse_value text of
        None \<Rightarrow> None
      | Some (v, r) \<Rightarrow> if skip_ws r = [] then Some v else None)"


lemma json_int_part_length: "json_int_part s = Some (ip, r) \<Longrightarrow> length r < length s"
  using length_dropWhile_le [of is_digit "tl s"]
  by (cases s) (auto simp: json_int_part_def split: if_splits)

lemma json_fraction_length: "json_fraction s = Some (fp, r) \<Longrightarrow> length r \<le> length s"
  using length_dropWhile_le [of is_digit "tl s"]
  by (cases s) (auto simp: json_fraction_def split: if_splits)

lemma json_exp_digits_length: "json_exp_digits neg s = Some (e, r) \<Longrightarrow> length r \<le> length s"
  using length_dropWhile_le [of is_digit s]
  by (auto simp: json_exp_digits_def split: if_splits)

lemma json_exponent_length: "json_exponent s = Some (e, r) \<Longrightarrow> length r \<le> length s"
  by (cases s) (auto simp: json_exponent_def split: if_splits list.splits
      dest!: json_exp_digits_length)

lemma json_unsigned_length: "json_unsigned neg s = Some (v, r) \<Longrightarrow> length r < length s"
  by (auto simp: json_unsigned_def split: option.splits
      dest!: json_int_part_length json_fraction_length json_exponent_length)

lemma json_number_length: "json_number s = Some (v, r) \<Longrightarrow> length r < length s"
  by (cases s) (auto simp: json_number_def split: if_splits dest!: json_unsigned_length)

lemma parse_lengths_aux:
  "length s = n \<Longrightarrow>
     (\<forall>v r. parse_value s = Some (v, r) \<longrightarrow> length r < length s) \<and>
     (\<forall>acc v r. parse_elements acc s = Some (v, r) \<longrightarrow> length r < length s) \<and>
     (\<forall>acc v r. parse_members acc s = Some (v, r) \<longrightarrow> length r < length s)"
proof (induction n arbitrary: s rule: less_induct)
  case (less n)
  have IH: "(\<forall>v r. parse_value t = Some (v, r) \<longrightarrow> length r < length t) \<and>
     (\<forall>acc v r. parse_elements acc t = Some (v, r) \<longrightarrow> length r < length t) \<and>
     (\<forall>acc v r. parse_members acc t = Some (v, r) \<longrightarrow> length r < length t)"
    if "length t < length s" for t
    using less.IH [of "length t" t] less.prems that by simp
  have IHP: "parse_value t = Some (v, r) \<Longrightarrow> length t < length s \<Longrightarrow> length r < length t"
    for t v r using IH [of t] by simp
  have IHQ: "parse_elements acc t = Some (v, r) \<Longrightarrow> length t < length s \<Longrightarrow> length r < length t"
    for acc t v r using IH [of t] by simp
  have IHR: "parse_members acc t = Some (v, r) \<Longrightarrow> length t < length s \<Longrightarrow> length r < length t"
    for acc t v r using IH [of t] by simp
  have P: "length r < length s" if a: "parse_value s = Some (v, r)" for v r
  proof (cases "skip_ws s")
    case Nil
    with a show ?thesis by (simp add: parse_value.simps)
  next
    case (Cons c cs)
    have cs: "length cs < length s" using Cons by (rule skip_ws_Cons_length)
    have d4: "length (drop 4 (c # cs)) < length s" using cs by simp
    have d5: "length (drop 5 (c # cs)) < length s" using cs by simp
    from a Cons consider
        (str) str where "json_string [] cs = Some (str, r)"
      | (arr0) d where "skip_ws cs = d # r"
      | (arr) "parse_elements [] cs = Some (v, r)"
      | (obj) "parse_members [] cs = Some (v, r)"
      | (lit4) "r = drop 4 (c # cs)"
      | (lit5) "r = drop 5 (c # cs)"
      | (num) "json_number (c # cs) = Some (v, r)"
      by (auto simp: parse_value.simps split: if_splits option.splits list.splits)
    then show ?thesis
    proof cases
      case str
      then show ?thesis using json_string_length [of "[]" cs str r] cs by simp
    next
      case arr0
      then show ?thesis using skip_ws_Cons_length [of cs d r] cs by simp
    next
      case arr
      then show ?thesis using IHQ [OF arr cs] cs by simp
    next
      case obj
      then show ?thesis using IHR [OF obj cs] cs by simp
    next
      case lit4
      then show ?thesis using d4 by simp
    next
      case lit5
      then show ?thesis using d5 by simp
    next
      case num
      then show ?thesis using json_number_length [of "c # cs" v r] cs by simp
    qed
  qed
  have Q: "length r < length s" if a: "parse_elements acc s = Some (v, r)" for acc v r
  proof -
    from a obtain w r1 d ds where pv: "parse_value s = Some (w, r1)" and r1: "length r1 < length s"
      and sk: "skip_ws r1 = d # ds"
      and alt: "parse_elements (w # acc) ds = Some (v, r) \<or> r = ds"
      by (subst (asm) parse_elements.simps)
         (auto split: option.splits list.splits if_splits)
    have ds: "length ds < length r1" using sk by (rule skip_ws_Cons_length)
    from alt show ?thesis
    proof
      assume "parse_elements (w # acc) ds = Some (v, r)"
      moreover have "length ds < length s" using ds r1 by simp
      ultimately have "length r < length ds" by (rule IHQ)
      then show ?thesis using ds r1 by simp
    next
      assume "r = ds"
      then show ?thesis using ds r1 by simp
    qed
  qed
  have R: "length r < length s" if a: "parse_members acc s = Some (v, r)" for acc v r
  proof -
    from a obtain q qs k r1 col r2 w r3 d ds where
          s: "skip_ws s = q # qs" and k: "json_string [] qs = Some (k, r1)"
      and c: "skip_ws r1 = col # r2" and pv: "parse_value r2 = Some (w, r3)"
      and r3: "length r3 < length r2" and sk: "skip_ws r3 = d # ds"
      and alt: "parse_members ((k, w) # acc) ds = Some (v, r) \<or> r = ds"
      by (subst (asm) parse_members.simps)
         (auto split: option.splits list.splits if_splits)
    have l1: "length qs < length s" using s by (rule skip_ws_Cons_length)
    have l2: "length r1 < length qs" using k by (rule json_string_length)
    have l3: "length r2 < length r1" using c by (rule skip_ws_Cons_length)
    have l4: "length ds < length r3" using sk by (rule skip_ws_Cons_length)
    from alt show ?thesis
    proof
      assume "parse_members ((k, w) # acc) ds = Some (v, r)"
      moreover have "length ds < length s" using l1 l2 l3 l4 r3 by simp
      ultimately have "length r < length ds" by (rule IHR)
      then show ?thesis using l1 l2 l3 l4 r3 by simp
    next
      assume "r = ds"
      then show ?thesis using l1 l2 l3 l4 r3 by simp
    qed
  qed
  from P Q R show ?case by blast
qed

lemma parse_value_length: "parse_value s = Some (v, r) \<Longrightarrow> length r < length s"
  using parse_lengths_aux [of s "length s"] by blast

text \<open>Hence the recursion equations without the comparison of lengths.\<close>

lemma parse_elements_eq:
  "parse_elements acc s =
     (case parse_value s of
        None \<Rightarrow> None
      | Some (v, r) \<Rightarrow>
          (case skip_ws r of
             [] \<Rightarrow> None
           | d # ds \<Rightarrow>
               if d = 0x2C then parse_elements (v # acc) ds
               else if d = 0x5D then Some (JArray (rev (v # acc)), ds)
               else None))"
  by (subst parse_elements.simps) (auto split: option.splits dest: parse_value_length)

lemma parse_members_eq:
  "parse_members acc s =
     (case skip_ws s of
        [] \<Rightarrow> None
      | q # qs \<Rightarrow>
          if q = 0x22 then
            (case json_string [] qs of
               None \<Rightarrow> None
             | Some (k, r1) \<Rightarrow>
                 (case skip_ws r1 of
                    [] \<Rightarrow> None
                  | col # r2 \<Rightarrow>
                      if col = 0x3A then
                        (case parse_value r2 of
                           None \<Rightarrow> None
                         | Some (v, r3) \<Rightarrow>
                             (case skip_ws r3 of
                                [] \<Rightarrow> None
                              | d # ds \<Rightarrow>
                                  if d = 0x2C then parse_members ((k, v) # acc) ds
                                  else if d = 0x7D then Some (JObject (rev ((k, v) # acc)), ds)
                                  else None))
                      else None))
          else None)"
  by (subst parse_members.simps) (auto split: option.splits list.splits dest: parse_value_length)

section \<open>JavaScript values read from JSON\<close>

datatype js_error = TypeError | SyntaxError | Error jsstring

text \<open>
  A value is a JSON value or \<^verbatim>\<open>undefined\<close> (\<open>None\<close>). Truthiness: \<^verbatim>\<open>null\<close>,
  \<^verbatim>\<open>false\<close>, zero, the empty string and \<^verbatim>\<open>undefined\<close> are falsy.
\<close>

fun truthy :: "json \<Rightarrow> bool" where
  "truthy JNull = False"
| "truthy (JBool b) = b"
| "truthy (JNumber n) = (\<not> num_is_zero n)"
| "truthy (JString s) = (s \<noteq> [])"
| "truthy (JArray xs) = True"
| "truthy (JObject kvs) = True"

text \<open>
  The own property of a parsed object: a key written twice keeps its last value.
\<close>

definition own_property :: "(jsstring \<times> json) list \<Rightarrow> jsstring \<Rightarrow> json option" where
  "own_property kvs name = map_of (rev kvs) name"

text \<open>
  \<^verbatim>\<open>v.name\<close>, for the names the modules read (\<^verbatim>\<open>type delta text candidates content
  parts index category confidence reasoning icon error message\<close>): none of them is a
  property of a prototype, so an object answers with its own property, an array, a string,
  a number and a boolean with \<^verbatim>\<open>undefined\<close>, and \<^verbatim>\<open>null\<close> and
  \<^verbatim>\<open>undefined\<close> raise a TypeError.
\<close>

definition get_prop :: "json option \<Rightarrow> jsstring \<Rightarrow> js_error + json option" where
  "get_prop v name =
     (case v of
        None \<Rightarrow> Inl TypeError
      | Some JNull \<Rightarrow> Inl TypeError
      | Some (JObject kvs) \<Rightarrow> Inr (own_property kvs name)
      | Some _ \<Rightarrow> Inr None)"

text \<open>\<^verbatim>\<open>v?.name\<close>: \<^verbatim>\<open>undefined\<close> where \<^verbatim>\<open>v.name\<close> would raise.\<close>

definition get_prop_opt :: "json option \<Rightarrow> jsstring \<Rightarrow> json option" where
  "get_prop_opt v name =
     (case v of
        None \<Rightarrow> None
      | Some JNull \<Rightarrow> None
      | Some (JObject kvs) \<Rightarrow> own_property kvs name
      | Some _ \<Rightarrow> None)"

text \<open>
  \<^verbatim>\<open>v[0]\<close>: the first element of an array, the property \<^verbatim>\<open>"0"\<close> of an
  object, the first code unit of a string.
\<close>

definition get_index0 :: "json \<Rightarrow> js_error + json option" where
  "get_index0 v =
     (case v of
        JNull \<Rightarrow> Inl TypeError
      | JArray xs \<Rightarrow> Inr (case xs of [] \<Rightarrow> None | x # _ \<Rightarrow> Some x)
      | JObject kvs \<Rightarrow> Inr (own_property kvs (js ''0''))
      | JString s \<Rightarrow> Inr (case s of [] \<Rightarrow> None | c # _ \<Rightarrow> Some (JString [c]))
      | _ \<Rightarrow> Inr None)"

text \<open>\<^verbatim>\<open>a || b\<close> with a string literal \<open>b\<close>.\<close>

definition js_or :: "json option \<Rightarrow> jsstring \<Rightarrow> json" where
  "js_or v d = (case v of None \<Rightarrow> JString d | Some j \<Rightarrow> if truthy j then j else JString d)"

text \<open>
  The conversion to a string that \<^verbatim>\<open>fullText += v\<close>, \<^verbatim>\<open>new Error(v)\<close> and a
  property key \<^verbatim>\<open>map[v]\<close> apply. A string is itself; an array joins the strings of
  its elements with commas, \<^verbatim>\<open>null\<close> elements as empty strings; a parsed object is
  \<^verbatim>\<open>[object Object]\<close>, unless it has an own property \<^verbatim>\<open>toString\<close>, which is
  not callable and makes the conversion raise a TypeError. The decimal notation of a
  number is the engine's; it is the parameter \<open>nts\<close> (Number::toString).
\<close>

fun join :: "jsstring list \<Rightarrow> jsstring" where
  "join [] = []"
| "join [s] = s"
| "join (s # t # ss) = s @ 0x2C # join (t # ss)"

fun toString :: "(jsnum \<Rightarrow> jsstring) \<Rightarrow> json \<Rightarrow> js_error + jsstring"
  and toString_elements :: "(jsnum \<Rightarrow> jsstring) \<Rightarrow> json list \<Rightarrow> js_error + jsstring list"
where
  "toString nts JNull = Inr (js ''null'')"
| "toString nts (JBool b) = Inr (if b then js ''true'' else js ''false'')"
| "toString nts (JNumber n) = Inr (nts n)"
| "toString nts (JString s) = Inr s"
| "toString nts (JArray xs) =
     (case toString_elements nts xs of Inl e \<Rightarrow> Inl e | Inr ss \<Rightarrow> Inr (join ss))"
| "toString nts (JObject kvs) =
     (if own_property kvs (js ''toString'') = None then Inr (js ''[object Object]'')
      else Inl TypeError)"
| "toString_elements nts [] = Inr []"
| "toString_elements nts (x # xs) =
     (case (if x = JNull then Inr [] else toString nts x) of
        Inl e \<Rightarrow> Inl e
      | Inr s \<Rightarrow>
          (case toString_elements nts xs of Inl e \<Rightarrow> Inl e | Inr ss \<Rightarrow> Inr (s # ss)))"

section \<open>The stream readers of \<^verbatim>\<open>ai.js\<close>\<close>

text \<open>
  The state of a streaming call: \<^verbatim>\<open>fullText\<close>, and the arguments of the calls of
  \<^verbatim>\<open>onUpdate\<close> so far, in order. The callback is a recorder: it returns and does
  not throw.
\<close>

record accumulator =
  fullText :: jsstring
  onUpdate_calls :: "jsstring list"

definition new_accumulator :: accumulator where
  "new_accumulator = \<lparr>fullText = [], onUpdate_calls = []\<rparr>"

text \<open>\<^verbatim>\<open>fullText += text; onUpdate(fullText);\<close>\<close>

definition append_delta :: "accumulator \<Rightarrow> jsstring \<Rightarrow> accumulator" where
  "append_delta acc s =
     \<lparr>fullText = fullText acc @ s, onUpdate_calls = onUpdate_calls acc @ [fullText acc @ s]\<rparr>"

subsection \<open>Anthropic events\<close>

text \<open>
  The body of the \<^verbatim>\<open>try\<close> of \<^verbatim>\<open>streamExplanationFromClaude\<close> (and of its
  twin with a system prompt): \<open>Inl\<close> is the exception thrown, before which nothing was
  appended.
  \<^verbatim>\<open>
    const data = JSON.parse(dataStr);
    if (data.type === 'content_block_delta' && data.delta.text) {
        fullText += data.delta.text;
        onUpdate(fullText);
    }
  \<close>
\<close>

definition claude_try :: "(jsnum \<Rightarrow> jsstring) \<Rightarrow> accumulator \<Rightarrow> jsstring \<Rightarrow> js_error + accumulator" where
  "claude_try nts acc dataStr =
     (case JSON_parse dataStr of
        None \<Rightarrow> Inl SyntaxError
      | Some data \<Rightarrow>
          (case get_prop (Some data) (js ''type'') of
             Inl e \<Rightarrow> Inl e
           | Inr ty \<Rightarrow>
               if ty = Some (JString (js ''content_block_delta'')) then
                 (case get_prop (Some data) (js ''delta'') of
                    Inl e \<Rightarrow> Inl e
                  | Inr delta \<Rightarrow>
                      (case get_prop delta (js ''text'') of
                         Inl e \<Rightarrow> Inl e
                       | Inr None \<Rightarrow> Inr acc
                       | Inr (Some t) \<Rightarrow>
                           if truthy t then
                             (case toString nts t of
                                Inl e \<Rightarrow> Inl e
                              | Inr s \<Rightarrow> Inr (append_delta acc s))
                           else Inr acc))
               else Inr acc))"

text \<open>
  One line of a chunk:
  \<^verbatim>\<open>
    if (line.startsWith('data: ')) {
        const dataStr = line.slice(6);
        if (dataStr === '[DONE]') continue;
        try { ... } catch (e) { // Ignore parse errors for incomplete chunks }
    }
  \<close>
\<close>

definition claude_line :: "(jsnum \<Rightarrow> jsstring) \<Rightarrow> accumulator \<Rightarrow> jsstring \<Rightarrow> accumulator" where
  "claude_line nts acc line =
     (if startsWith line (js ''data: '') then
        (let dataStr = slice_from 6 line in
         if dataStr = js ''[DONE]'' then acc
         else (case claude_try nts acc dataStr of Inl e \<Rightarrow> acc | Inr acc' \<Rightarrow> acc'))
      else acc)"

text \<open>\<^verbatim>\<open>for (const line of lines)\<close>\<close>

fun claude_lines :: "(jsnum \<Rightarrow> jsstring) \<Rightarrow> accumulator \<Rightarrow> jsstring list \<Rightarrow> accumulator" where
  "claude_lines nts acc [] = acc"
| "claude_lines nts acc (line # lines) = claude_lines nts (claude_line nts acc line) lines"

text \<open>
  The read loop over the chunks the body's reader delivers until it reports
  \<^verbatim>\<open>done\<close>; the stream is the finite list of its chunks.
  \<^verbatim>\<open>
    while (true) {
        const { done, value } = await reader.read();
        if (done) break;
        const chunk = decoder.decode(value, { stream: true });
        const lines = chunk.split('\n');
        for (const line of lines) { ... }
    }
    return fullText;
  \<close>
\<close>

fun claude_read_loop ::
  "(jsnum \<Rightarrow> jsstring) \<Rightarrow> text_decoder \<Rightarrow> accumulator \<Rightarrow> byte list list \<Rightarrow> accumulator" where
  "claude_read_loop nts decoder acc [] = acc"
| "claude_read_loop nts decoder acc (chunk_bytes # rest) =
     (case decode_stream decoder chunk_bytes of
        (decoder', chunk) \<Rightarrow>
          claude_read_loop nts decoder' (claude_lines nts acc (split chunk 0x0A)) rest)"

subsection \<open>Gemini events\<close>

text \<open>
  \<^verbatim>\<open>
    for (const part of data.candidates[0].content.parts) {
        if (part.text) { fullText += part.text; onUpdate(fullText); }
    }
  \<close>
  An exception inside the loop (a \<^verbatim>\<open>null\<close> part, a text that has no string)
  ends it; what earlier parts appended stays. The result is the state and the exception,
  if one was thrown.
\<close>

fun gemini_parts ::
  "(jsnum \<Rightarrow> jsstring) \<Rightarrow> accumulator \<Rightarrow> json list \<Rightarrow> accumulator \<times> js_error option" where
  "gemini_parts nts acc [] = (acc, None)"
| "gemini_parts nts acc (part # parts) =
     (case get_prop (Some part) (js ''text'') of
        Inl e \<Rightarrow> (acc, Some e)
      | Inr None \<Rightarrow> gemini_parts nts acc parts
      | Inr (Some t) \<Rightarrow>
          if truthy t then
            (case toString nts t of
               Inl e \<Rightarrow> (acc, Some e)
             | Inr s \<Rightarrow> gemini_parts nts (append_delta acc s) parts)
          else gemini_parts nts acc parts)"

text \<open>
  \<^verbatim>\<open>for (... of parts)\<close> over a truthy value: an array gives its elements; a
  string gives its characters, which have no \<^verbatim>\<open>text\<close>; anything else is not
  iterable.
\<close>

definition gemini_for_of ::
  "(jsnum \<Rightarrow> jsstring) \<Rightarrow> accumulator \<Rightarrow> json \<Rightarrow> accumulator \<times> js_error option" where
  "gemini_for_of nts acc parts =
     (case parts of
        JArray xs \<Rightarrow> gemini_parts nts acc xs
      | JString s \<Rightarrow> (acc, None)
      | _ \<Rightarrow> (acc, Some TypeError))"

text \<open>
  The body of the \<^verbatim>\<open>try\<close> of \<^verbatim>\<open>streamExplanationFromGemini\<close> (and of its
  twin with a system prompt):
  \<^verbatim>\<open>
    const data = JSON.parse(dataStr);
    if (data.candidates && data.candidates[0]?.content?.parts) {
        for (const part of data.candidates[0].content.parts) { ... }
    }
  \<close>
\<close>

definition gemini_try ::
  "(jsnum \<Rightarrow> jsstring) \<Rightarrow> accumulator \<Rightarrow> jsstring \<Rightarrow> accumulator \<times> js_error option" where
  "gemini_try nts acc dataStr =
     (case JSON_parse dataStr of
        None \<Rightarrow> (acc, Some SyntaxError)
      | Some data \<Rightarrow>
          (case get_prop (Some data) (js ''candidates'') of
             Inl e \<Rightarrow> (acc, Some e)
           | Inr None \<Rightarrow> (acc, None)
           | Inr (Some candidates) \<Rightarrow>
               if truthy candidates then
                 (case get_index0 candidates of
                    Inl e \<Rightarrow> (acc, Some e)
                  | Inr c0 \<Rightarrow>
                      (case get_prop_opt (get_prop_opt c0 (js ''content'')) (js ''parts'') of
                         None \<Rightarrow> (acc, None)
                       | Some parts \<Rightarrow>
                           if truthy parts then gemini_for_of nts acc parts else (acc, None)))
               else (acc, None)))"

text \<open>
  \<^verbatim>\<open>
    if (line.startsWith('data: ')) {
        const dataStr = line.slice(6).trim();
        if (!dataStr) continue;
        try { ... } catch (e) { // Ignore parse errors for incomplete chunks }
    }
  \<close>
\<close>

definition gemini_line :: "(jsnum \<Rightarrow> jsstring) \<Rightarrow> accumulator \<Rightarrow> jsstring \<Rightarrow> accumulator" where
  "gemini_line nts acc line =
     (if startsWith line (js ''data: '') then
        (let dataStr = trim (slice_from 6 line) in
         if dataStr = [] then acc
         else fst (gemini_try nts acc dataStr))
      else acc)"

fun gemini_lines :: "(jsnum \<Rightarrow> jsstring) \<Rightarrow> accumulator \<Rightarrow> jsstring list \<Rightarrow> accumulator" where
  "gemini_lines nts acc [] = acc"
| "gemini_lines nts acc (line # lines) = gemini_lines nts (gemini_line nts acc line) lines"

fun gemini_read_loop ::
  "(jsnum \<Rightarrow> jsstring) \<Rightarrow> text_decoder \<Rightarrow> accumulator \<Rightarrow> byte list list \<Rightarrow> accumulator" where
  "gemini_read_loop nts decoder acc [] = acc"
| "gemini_read_loop nts decoder acc (chunk_bytes # rest) =
     (case decode_stream decoder chunk_bytes of
        (decoder', chunk) \<Rightarrow>
          gemini_read_loop nts decoder' (gemini_lines nts acc (split chunk 0x0A)) rest)"


section \<open>Requests to the providers\<close>

text \<open>
  The object each adapter passes to \<^verbatim>\<open>JSON.stringify\<close> as the body of its request,
  and the request \<^verbatim>\<open>fetch\<close> receives.
\<close>

record anthropic_body =
  body_model :: jsstring
  max_tokens :: nat
  system :: jsstring
  stream :: bool
  messages :: "(jsstring \<times> jsstring) list"

record generation_config =
  temperature :: jsnum
  maxOutputTokens :: nat

record gemini_body =
  contents :: "jsstring list list"
  generationConfig :: generation_config

datatype request_body = AnthropicBody anthropic_body | GeminiBody gemini_body

record http_request =
  url :: jsstring
  http_method :: jsstring
  headers :: "(jsstring \<times> jsstring) list"
  body :: request_body

text \<open>
  What \<^verbatim>\<open>await fetch(...)\<close> gives: the promise is rejected (a TypeError), or it
  resolves to a response with its \<^verbatim>\<open>ok\<close> flag and the chunks of its body.
\<close>

datatype fetch_result = Rejected | Response (ok: bool) (response_body: "byte list list")

type_synonym network = "http_request \<Rightarrow> fetch_result"

text \<open>
  \<^verbatim>\<open>await response.json()\<close>: the whole body decoded as UTF-8 (an unfinished
  sequence at the end becomes U+FFFD, the byte order mark is removed) and parsed as JSON.
\<close>

definition utf8_decode :: "byte list \<Rightarrow> jsstring" where
  "utf8_decode bytes =
     (case utf8_run utf8_reset bytes of
        (st, cps) \<Rightarrow>
          snd (serialize False (cps @ (if bytes_needed st \<noteq> 0 then [0xFFFD] else []))))"

definition response_json :: "byte list list \<Rightarrow> json option" where
  "response_json chunks = JSON_parse (utf8_decode (concat chunks))"

text \<open>
  \<^verbatim>\<open>
    if (!response.ok) {
        const errorData = await response.json();
        throw new Error(errorData.error?.message || 'Failed to communicate with ... API');
    }
  \<close>
  The value is what is thrown.
\<close>

definition error_of_response :: "(jsnum \<Rightarrow> jsstring) \<Rightarrow> jsstring \<Rightarrow> byte list list \<Rightarrow> js_error" where
  "error_of_response nts fallback chunks =
     (case response_json chunks of
        None \<Rightarrow> SyntaxError
      | Some errorData \<Rightarrow>
          (case get_prop (Some errorData) (js ''error'') of
             Inl e \<Rightarrow> e
           | Inr err \<Rightarrow>
               (case toString nts (js_or (get_prop_opt err (js ''message'')) fallback) of
                  Inl e \<Rightarrow> e
                | Inr m \<Rightarrow> Error m)))"

definition explain_system_prompt :: jsstring where
  "explain_system_prompt =
     js ''You are an expert security researcher and web developer. Explain the following HTTP request in detail, highlighting interesting parameters, potential security implications, and what this request is likely doing. Be concise but thorough.''"

definition anthropic_headers :: "jsstring \<Rightarrow> (jsstring \<times> jsstring) list" where
  "anthropic_headers apiKey =
     [(js ''x-api-key'', apiKey),
      (js ''anthropic-version'', js ''2023-06-01''),
      (js ''content-type'', js ''application/json''),
      (js ''anthropic-dangerous-direct-browser-access'', js ''true'')]"

text \<open>The request of \<^verbatim>\<open>streamExplanationFromClaude\<close>.\<close>

definition claude_request :: "jsstring \<Rightarrow> jsstring \<Rightarrow> jsstring \<Rightarrow> http_request" where
  "claude_request apiKey mdl request =
     \<lparr>url = js ''https://api.anthropic.com/v1/messages'',
      http_method = js ''POST'',
      headers = anthropic_headers apiKey,
      body = AnthropicBody
        \<lparr>body_model = mdl,
         max_tokens = 1024,
         system = explain_system_prompt,
         stream = True,
         messages = [(js ''user'', js ''Explain this HTTP request:'' @ [0x0A, 0x0A] @ request)]\<rparr>\<rparr>"

text \<open>The request of \<^verbatim>\<open>streamExplanationFromClaudeWithSystem\<close>.\<close>

definition claude_system_request ::
  "jsstring \<Rightarrow> jsstring \<Rightarrow> jsstring \<Rightarrow> jsstring \<Rightarrow> http_request" where
  "claude_system_request apiKey mdl systemPrompt userPrompt =
     \<lparr>url = js ''https://api.anthropic.com/v1/messages'',
      http_method = js ''POST'',
      headers = anthropic_headers apiKey,
      body = AnthropicBody
        \<lparr>body_model = mdl,
         max_tokens = 2048,
         system = systemPrompt,
         stream = True,
         messages = [(js ''user'', userPrompt)]\<rparr>\<rparr>"

definition gemini_url :: "jsstring \<Rightarrow> jsstring \<Rightarrow> jsstring" where
  "gemini_url apiKey mdl =
     js ''https://generativelanguage.googleapis.com/v1beta/models/'' @ mdl
       @ js '':streamGenerateContent?alt=sse&key='' @ apiKey"

text \<open>The request of \<^verbatim>\<open>streamExplanationFromGemini\<close>; the temperature is 0.7.\<close>

definition gemini_request :: "jsstring \<Rightarrow> jsstring \<Rightarrow> jsstring \<Rightarrow> http_request" where
  "gemini_request apiKey mdl request =
     \<lparr>url = gemini_url apiKey mdl,
      http_method = js ''POST'',
      headers = [(js ''Content-Type'', js ''application/json'')],
      body = GeminiBody
        \<lparr>contents =
           [[explain_system_prompt @ [0x0A, 0x0A] @ js ''Explain this HTTP request:''
               @ [0x0A, 0x0A] @ request]],
         generationConfig = \<lparr>temperature = JsNum False 7 (- 1), maxOutputTokens = 2048\<rparr>\<rparr>\<rparr>"

text \<open>The request of \<^verbatim>\<open>streamExplanationFromGeminiWithSystem\<close>.\<close>

definition gemini_system_request ::
  "jsstring \<Rightarrow> jsstring \<Rightarrow> jsstring \<Rightarrow> jsstring \<Rightarrow> http_request" where
  "gemini_system_request apiKey mdl systemPrompt userPrompt =
     \<lparr>url = gemini_url apiKey mdl,
      http_method = js ''POST'',
      headers = [(js ''Content-Type'', js ''application/json'')],
      body = GeminiBody
        \<lparr>contents = [[systemPrompt @ [0x0A, 0x0A] @ userPrompt]],
         generationConfig = \<lparr>temperature = JsNum False 7 (- 1), maxOutputTokens = 4096\<rparr>\<rparr>\<rparr>"

section \<open>The streaming entry points\<close>

text \<open>
  Each entry point sends its request, throws on a response that is not \<^verbatim>\<open>ok\<close>,
  and otherwise runs its read loop on the body from a new decoder and an empty
  \<^verbatim>\<open>fullText\<close>. The result is the request sent and either the exception or the
  final state: the text returned and the calls of \<^verbatim>\<open>onUpdate\<close> made on the way.
\<close>

definition claude_failure :: jsstring where
  "claude_failure = js ''Failed to communicate with Anthropic API''"

definition gemini_failure :: jsstring where
  "gemini_failure = js ''Failed to communicate with Gemini API''"

definition claude_stream ::
  "(jsnum \<Rightarrow> jsstring) \<Rightarrow> network \<Rightarrow> http_request \<Rightarrow> http_request \<times> (js_error + accumulator)" where
  "claude_stream nts net req =
     (req,
      case net req of
        Rejected \<Rightarrow> Inl TypeError
      | Response is_ok chunks \<Rightarrow>
          if \<not> is_ok then Inl (error_of_response nts claude_failure chunks)
          else Inr (claude_read_loop nts new_TextDecoder new_accumulator chunks))"

definition gemini_stream ::
  "(jsnum \<Rightarrow> jsstring) \<Rightarrow> network \<Rightarrow> http_request \<Rightarrow> http_request \<times> (js_error + accumulator)" where
  "gemini_stream nts net req =
     (req,
      case net req of
        Rejected \<Rightarrow> Inl TypeError
      | Response is_ok chunks \<Rightarrow>
          if \<not> is_ok then Inl (error_of_response nts gemini_failure chunks)
          else Inr (gemini_read_loop nts new_TextDecoder new_accumulator chunks))"

definition streamExplanationFromClaude ::
  "(jsnum \<Rightarrow> jsstring) \<Rightarrow> network \<Rightarrow> jsstring \<Rightarrow> jsstring \<Rightarrow> jsstring
     \<Rightarrow> http_request \<times> (js_error + accumulator)" where
  "streamExplanationFromClaude nts net apiKey mdl request =
     claude_stream nts net (claude_request apiKey mdl request)"

definition streamExplanationFromClaudeWithSystem ::
  "(jsnum \<Rightarrow> jsstring) \<Rightarrow> network \<Rightarrow> jsstring \<Rightarrow> jsstring \<Rightarrow> jsstring \<Rightarrow> jsstring
     \<Rightarrow> http_request \<times> (js_error + accumulator)" where
  "streamExplanationFromClaudeWithSystem nts net apiKey mdl systemPrompt userPrompt =
     claude_stream nts net (claude_system_request apiKey mdl systemPrompt userPrompt)"

definition streamExplanationFromGemini ::
  "(jsnum \<Rightarrow> jsstring) \<Rightarrow> network \<Rightarrow> jsstring \<Rightarrow> jsstring \<Rightarrow> jsstring
     \<Rightarrow> http_request \<times> (js_error + accumulator)" where
  "streamExplanationFromGemini nts net apiKey mdl request =
     gemini_stream nts net (gemini_request apiKey mdl request)"

definition streamExplanationFromGeminiWithSystem ::
  "(jsnum \<Rightarrow> jsstring) \<Rightarrow> network \<Rightarrow> jsstring \<Rightarrow> jsstring \<Rightarrow> jsstring \<Rightarrow> jsstring
     \<Rightarrow> http_request \<times> (js_error + accumulator)" where
  "streamExplanationFromGeminiWithSystem nts net apiKey mdl systemPrompt userPrompt =
     gemini_stream nts net (gemini_system_request apiKey mdl systemPrompt userPrompt)"

text \<open>The dispatch on the provider: \<^verbatim>\<open>if (provider === 'gemini')\<close>.\<close>

definition streamExplanation ::
  "(jsnum \<Rightarrow> jsstring) \<Rightarrow> network \<Rightarrow> jsstring \<Rightarrow> jsstring \<Rightarrow> jsstring \<Rightarrow> jsstring
     \<Rightarrow> http_request \<times> (js_error + accumulator)" where
  "streamExplanation nts net apiKey mdl request prov =
     (if prov = js ''gemini'' then streamExplanationFromGemini nts net apiKey mdl request
      else streamExplanationFromClaude nts net apiKey mdl request)"

definition streamExplanationWithSystem ::
  "(jsnum \<Rightarrow> jsstring) \<Rightarrow> network \<Rightarrow> jsstring \<Rightarrow> jsstring \<Rightarrow> jsstring \<Rightarrow> jsstring \<Rightarrow> jsstring
     \<Rightarrow> http_request \<times> (js_error + accumulator)" where
  "streamExplanationWithSystem nts net apiKey mdl systemPrompt userPrompt prov =
     (if prov = js ''gemini'' then
        streamExplanationFromGeminiWithSystem nts net apiKey mdl systemPrompt userPrompt
      else streamExplanationFromClaudeWithSystem nts net apiKey mdl systemPrompt userPrompt)"

section \<open>The settings\<close>

text \<open>
  \<^verbatim>\<open>localStorage\<close>: \<^verbatim>\<open>getItem\<close> gives \<^verbatim>\<open>null\<close> for a key that was never set.
  \<^verbatim>\<open>localStorage.getItem(key) || d\<close> is \<open>d\<close> for an absent or empty item.
\<close>

type_synonym storage = "jsstring \<rightharpoonup> jsstring"

definition getItem_or :: "storage \<Rightarrow> jsstring \<Rightarrow> jsstring \<Rightarrow> jsstring" where
  "getItem_or st key d = (case st key of None \<Rightarrow> d | Some v \<Rightarrow> if v = [] then d else v)"

record ai_settings =
  provider :: jsstring
  apiKey :: jsstring
  model :: jsstring

definition getAISettings :: "storage \<Rightarrow> ai_settings" where
  "getAISettings st =
     (if getItem_or st (js ''ai_provider'') (js ''anthropic'') = js ''gemini'' then
        \<lparr>provider = js ''gemini'',
         apiKey = getItem_or st (js ''gemini_api_key'') [],
         model = getItem_or st (js ''gemini_model'') (js ''gemini-flash-latest'')\<rparr>
      else
        \<lparr>provider = js ''anthropic'',
         apiKey = getItem_or st (js ''anthropic_api_key'') [],
         model = getItem_or st (js ''anthropic_model'') (js ''claude-3-5-sonnet-20241022'')\<rparr>)"


section \<open>\<^verbatim>\<open>attack-surface.js\<close>: the prompt\<close>

text \<open>
  A captured request as \<^verbatim>\<open>buildAnalysisPrompt\<close> reads it: \<^verbatim>\<open>req.request\<close>
  may be missing, and so may its \<^verbatim>\<open>url\<close>, \<^verbatim>\<open>method\<close> and
  \<^verbatim>\<open>headers\<close>; a header has a name and a value, both strings.
\<close>

record har_header =
  header_name :: jsstring
  header_value :: jsstring

record har_request =
  har_url :: "jsstring option"
  har_method :: "jsstring option"
  har_headers :: "har_header list option"

record request_entry =
  request :: "har_request option"

text \<open>One element of \<^verbatim>\<open>requestSummaries\<close>.\<close>

record request_summary =
  summary_index :: nat
  summary_method :: jsstring
  summary_path :: jsstring
  summary_params :: "jsstring list"
  summary_headers :: "jsstring list"

text \<open>
  What the platform computes for the module: \<^verbatim>\<open>String.prototype.toLowerCase\<close>,
  the keys of \<^verbatim>\<open>new URL(url).searchParams\<close> (\<open>None\<close> when the URL is invalid and
  the constructor throws), \<^verbatim>\<open>JSON.stringify(requestSummaries, null, 2)\<close>, and the
  decimal notation of a number.
\<close>

record platform =
  toLowerCase :: "jsstring \<Rightarrow> jsstring"
  searchParams_keys :: "jsstring \<Rightarrow> jsstring list option"
  stringify_summaries :: "request_summary list \<Rightarrow> jsstring"
  Number_toString :: "jsnum \<Rightarrow> jsstring"

text \<open>\<^verbatim>\<open>a || d\<close> on a string that may be missing.\<close>

definition string_or :: "jsstring option \<Rightarrow> jsstring \<Rightarrow> jsstring" where
  "string_or v d = (case v of None \<Rightarrow> d | Some s \<Rightarrow> if s = [] then d else s)"

definition sensitive_headers :: "jsstring list" where
  "sensitive_headers = [js ''cookie'', js ''authorization'', js ''x-api-key'']"

text \<open>\<^verbatim>\<open>array.includes(x)\<close> on strings.\<close>

fun array_includes :: "jsstring list \<Rightarrow> jsstring \<Rightarrow> bool" where
  "array_includes [] x = False"
| "array_includes (y # ys) x = (y = x \<or> array_includes ys x)"

text \<open>
  The body of the \<^verbatim>\<open>map\<close> callback:
  \<^verbatim>\<open>
    const url = req.request?.url || '';
    const method = req.request?.method || 'GET';
    let params = [];
    try { params = Array.from(new URL(url).searchParams.keys()); } catch (e) { }
    const headerNames = req.request?.headers?.map(h => h.name) || [];
    return { index: idx, method: method, path: url.split('?')[0], params: params,
             headers: headerNames.filter(h =>
               !['cookie', 'authorization', 'x-api-key'].includes(h.toLowerCase())) };
  \<close>
\<close>

definition request_url :: "request_entry \<Rightarrow> jsstring" where
  "request_url req = string_or (case request req of None \<Rightarrow> None | Some r \<Rightarrow> har_url r) []"

definition request_method :: "request_entry \<Rightarrow> jsstring" where
  "request_method req =
     string_or (case request req of None \<Rightarrow> None | Some r \<Rightarrow> har_method r) (js ''GET'')"

definition headerNames :: "request_entry \<Rightarrow> jsstring list" where
  "headerNames req =
     (case request req of
        None \<Rightarrow> []
      | Some r \<Rightarrow> (case har_headers r of None \<Rightarrow> [] | Some hs \<Rightarrow> map header_name hs))"

definition summarize :: "platform \<Rightarrow> nat \<Rightarrow> request_entry \<Rightarrow> request_summary" where
  "summarize p idx req =
     \<lparr>summary_index = idx,
      summary_method = request_method req,
      summary_path = (case split (request_url req) 0x3F of [] \<Rightarrow> [] | x # _ \<Rightarrow> x),
      summary_params =
        (case searchParams_keys p (request_url req) of None \<Rightarrow> [] | Some ks \<Rightarrow> ks),
      summary_headers =
        filter (\<lambda>h. \<not> array_includes sensitive_headers (toLowerCase p h)) (headerNames req)\<rparr>"

text \<open>\<^verbatim>\<open>requests.map((req, idx) => ...)\<close>\<close>

definition requestSummaries :: "platform \<Rightarrow> request_entry list \<Rightarrow> request_summary list" where
  "requestSummaries p requests = map (\<lambda>(idx, req). summarize p idx req) (enumerate 0 requests)"

text \<open>The lines of the template before and after the summaries.\<close>

definition lines_text :: "jsstring list \<Rightarrow> jsstring" where
  "lines_text ls = concat (map (\<lambda>l. l @ [0x0A]) ls)"

definition prompt_head :: jsstring where
  "prompt_head = lines_text
     [js ''Analyze these HTTP requests and group them into security-relevant attack surface categories.'',
      [],
      js ''IMPORTANT: Create categories dynamically based on what you see in the requests. Don't use a predefined list.'',
      [],
      js ''Common patterns to look for:'',
      js ''- Authentication & session management'',
      js ''- User data & personal information'',
      js ''- File operations & media handling'',
      js ''- Administrative & privileged functions'',
      js ''- Financial & payment operations'',
      js ''- Third-party integrations'',
      js ''- Analytics & tracking'',
      js ''- API endpoints & data operations'',
      js ''- Static resources'',
      [],
      js ''For each request, provide:'',
      js ''1. category: A clear, descriptive category name (e.g., \"User Authentication\", \"Payment Processing\", \"Admin Panel\")'',
      js ''2. confidence: \"high\", \"medium\", or \"low\"'',
      js ''3. reasoning: Brief explanation (max 15 words)'',
      js ''4. icon: A single emoji that represents the category (e.g., '' @ [0xD83D, 0xDD10]
        @ js '' for auth, '' @ [0xD83D, 0xDCB3] @ js '' for payments)'',
      [],
      js ''Create NEW categories as needed based on the actual functionality you observe.'',
      [],
      js ''Requests:'']"

definition prompt_tail :: jsstring where
  "prompt_tail = [0x0A] @ lines_text
     [[],
      js ''Output ONLY valid JSON array in this exact format:'',
      js ''['',
      js ''  {'',
      js ''    \"index\": 0,'',
      js ''    \"category\": \"User Authentication\",'',
      js ''    \"confidence\": \"high\",'',
      js ''    \"reasoning\": \"Login endpoint with credentials\",'',
      js ''    \"icon\": \"'' @ [0xD83D, 0xDD10] @ js ''\"'',
      js ''  }''] @ js '']''"

definition buildAnalysisPrompt :: "platform \<Rightarrow> request_entry list \<Rightarrow> jsstring" where
  "buildAnalysisPrompt p requests =
     prompt_head @ stringify_summaries p (requestSummaries p requests) @ prompt_tail"

section \<open>\<^verbatim>\<open>attack-surface.js\<close>: \<^verbatim>\<open>parseCategories\<close>\<close>

text \<open>
  \<^verbatim>\<open>jsonText.match(/```(?:json)?\s*([\s\S]*?)\s*```/)\<close>, by backtracking in the
  order of the pattern: the literal fence; the optional tag, taken first and given back
  if the rest fails; white space, as much as possible first; the group, as short as
  possible first; white space again; the closing fence. The search tries each start
  position from the left. The value is the text of the group.
\<close>

definition fence :: jsstring where
  "fence = [0x60, 0x60, 0x60]"

text \<open>\<^verbatim>\<open>\s*```\<close> to the end of the pattern.\<close>

fun match_close :: "jsstring \<Rightarrow> bool" where
  "match_close [] = False"
| "match_close (c # cs) = ((is_js_space c \<and> match_close cs) \<or> startsWith (c # cs) fence)"

text \<open>\<^verbatim>\<open>([\s\S]*?)\<close> and the rest: the shortest group after which the rest matches.\<close>

fun match_group :: "jsstring \<Rightarrow> jsstring \<Rightarrow> jsstring option" where
  "match_group acc [] = None"
| "match_group acc (c # cs) =
     (if match_close (c # cs) then Some (rev acc) else match_group (c # acc) cs)"

text \<open>\<^verbatim>\<open>\s*\<close> before the group: the longest run first, then shorter ones.\<close>

fun match_space :: "jsstring \<Rightarrow> jsstring option" where
  "match_space [] = match_group [] []"
| "match_space (c # cs) =
     (if is_js_space c then
        (case match_space cs of Some g \<Rightarrow> Some g | None \<Rightarrow> match_group [] (c # cs))
      else match_group [] (c # cs))"

text \<open>\<^verbatim>\<open>(?:json)?\<close> and the rest.\<close>

definition match_tag :: "jsstring \<Rightarrow> jsstring option" where
  "match_tag s =
     (if startsWith s (js ''json'') then
        (case match_space (drop 4 s) of Some g \<Rightarrow> Some g | None \<Rightarrow> match_space s)
      else match_space s)"

definition match_at :: "jsstring \<Rightarrow> jsstring option" where
  "match_at s = (if startsWith s fence then match_tag (drop 3 s) else None)"

fun fence_match :: "jsstring \<Rightarrow> jsstring option" where
  "fence_match [] = match_at []"
| "fence_match (c # cs) =
     (case match_at (c # cs) of Some g \<Rightarrow> Some g | None \<Rightarrow> fence_match cs)"

text \<open>
  A category as \<^verbatim>\<open>parseCategories\<close> builds it. Each field holds the value of the
  parsed element's property, whatever its type, or the default string; \<^verbatim>\<open>index\<close>
  has no default and may be \<^verbatim>\<open>undefined\<close>.
\<close>

record category_fields =
  category :: json
  confidence :: json
  reasoning :: json
  icon :: json

record category_record = category_fields +
  index :: "json option"

text \<open>
  The callback of \<^verbatim>\<open>categories.map\<close>:
  \<^verbatim>\<open>
    cat => ({ index: cat.index,
              category: cat.category || 'Uncategorized',
              confidence: cat.confidence || 'low',
              reasoning: cat.reasoning || 'No reasoning provided',
              icon: cat.icon || '?' })
  \<close>
  where the default icon is the character U+2753.
\<close>

definition make_category :: "json \<Rightarrow> js_error + category_record" where
  "make_category cat =
     (case get_prop (Some cat) (js ''index'') of
        Inl e \<Rightarrow> Inl e
      | Inr i \<Rightarrow>
          (case get_prop (Some cat) (js ''category'') of
             Inl e \<Rightarrow> Inl e
           | Inr c \<Rightarrow>
               (case get_prop (Some cat) (js ''confidence'') of
                  Inl e \<Rightarrow> Inl e
                | Inr f \<Rightarrow>
                    (case get_prop (Some cat) (js ''reasoning'') of
                       Inl e \<Rightarrow> Inl e
                     | Inr r \<Rightarrow>
                         (case get_prop (Some cat) (js ''icon'') of
                            Inl e \<Rightarrow> Inl e
                          | Inr g \<Rightarrow>
                              Inr \<lparr>category = js_or c (js ''Uncategorized''),
                                   confidence = js_or f (js ''low''),
                                   reasoning = js_or r (js ''No reasoning provided''),
                                   icon = js_or g [0x2753],
                                   index = i\<rparr>)))))"

text \<open>\<^verbatim>\<open>categories.map(...)\<close>: the first exception ends the map.\<close>

fun make_categories :: "json list \<Rightarrow> js_error + category_record list" where
  "make_categories [] = Inr []"
| "make_categories (cat # cats) =
     (case make_category cat of
        Inl e \<Rightarrow> Inl e
      | Inr r \<Rightarrow> (case make_categories cats of Inl e \<Rightarrow> Inl e | Inr rs \<Rightarrow> Inr (r # rs)))"

text \<open>The text that is parsed: the trimmed response, or the group of the fence in it.\<close>

definition jsonText_of :: "jsstring \<Rightarrow> jsstring" where
  "jsonText_of response =
     (case fence_match (trim response) of Some g \<Rightarrow> g | None \<Rightarrow> trim response)"

text \<open>The body of the \<^verbatim>\<open>try\<close> of \<^verbatim>\<open>parseCategories\<close>.\<close>

definition parseCategories_try :: "jsstring \<Rightarrow> js_error + category_record list" where
  "parseCategories_try response =
     (case JSON_parse (jsonText_of response) of
        None \<Rightarrow> Inl SyntaxError
      | Some categories \<Rightarrow>
          (case categories of
             JArray cats \<Rightarrow> make_categories cats
           | _ \<Rightarrow> Inl (Error (js ''Response is not an array''))))"

text \<open>
  \<^verbatim>\<open>try { ... } catch (error) { console.error(...); return []; }\<close>
\<close>

definition parseCategories :: "jsstring \<Rightarrow> category_record list" where
  "parseCategories response =
     (case parseCategories_try response of Inl e \<Rightarrow> [] | Inr cats \<Rightarrow> cats)"

section \<open>\<^verbatim>\<open>attack-surface.js\<close>: \<^verbatim>\<open>analyzeAttackSurface\<close>\<close>

text \<open>
  \<^verbatim>\<open>categoryMap\<close> by its own properties. The key of \<^verbatim>\<open>categoryMap[cat.index]\<close> is
  the string of the index (\<^verbatim>\<open>undefined\<close> gives \<^verbatim>\<open>"undefined"\<close>); the conversion
  can raise a TypeError. An assignment to the key \<^verbatim>\<open>__proto__\<close> of an object literal
  sets its prototype and adds no own property.
\<close>

type_synonym category_map = "jsstring \<rightharpoonup> category_fields"

definition property_key :: "(jsnum \<Rightarrow> jsstring) \<Rightarrow> json option \<Rightarrow> js_error + jsstring" where
  "property_key nts v = (case v of None \<Rightarrow> Inr (js ''undefined'') | Some j \<Rightarrow> toString nts j)"

definition fields_of :: "category_record \<Rightarrow> category_fields" where
  "fields_of cat =
     \<lparr>category = category cat, confidence = confidence cat,
      reasoning = reasoning cat, icon = icon cat\<rparr>"

definition assign :: "category_map \<Rightarrow> jsstring \<Rightarrow> category_fields \<Rightarrow> category_map" where
  "assign m key v = (if key = js ''__proto__'' then m else m(key \<mapsto> v))"

text \<open>
  \<^verbatim>\<open>
    categories.forEach(cat => {
        categoryMap[cat.index] = { category: cat.category, confidence: cat.confidence,
                                   reasoning: cat.reasoning, icon: cat.icon };
    });
  \<close>
\<close>

fun fill_map ::
  "(jsnum \<Rightarrow> jsstring) \<Rightarrow> category_map \<Rightarrow> category_record list \<Rightarrow> js_error + category_map" where
  "fill_map nts m [] = Inr m"
| "fill_map nts m (cat # cats) =
     (case property_key nts (index cat) of
        Inl e \<Rightarrow> Inl e
      | Inr key \<Rightarrow> fill_map nts (assign m key (fields_of cat)) cats)"

text \<open>
  What the function does to the outside, in order: the request it sends and the
  events it passes to \<^verbatim>\<open>onProgress\<close>.
\<close>

datatype progress_event =
    building_prompt nat
  | analyzing nat
  | streaming jsstring
  | parsing jsstring
  | complete category_map

datatype effect = Fetch http_request | Progress progress_event

definition analysis_system_prompt :: jsstring where
  "analysis_system_prompt =
     js ''You are a security expert analyzing web application attack surfaces. '' @ [0x0A]
     @ js ''Categorize HTTP requests based on their functionality and security implications.''
     @ [0x0A] @ js ''Be precise and consistent. Output ONLY valid JSON.''"

text \<open>\<^verbatim>\<open>if (onProgress) { onProgress(event); }\<close>\<close>

definition report :: "bool \<Rightarrow> progress_event \<Rightarrow> effect list" where
  "report onProgress ev = (if onProgress then [Progress ev] else [])"

text \<open>
  \<^verbatim>\<open>fullResponse\<close> is assigned by the callback passed as \<^verbatim>\<open>onUpdate\<close>: it is
  the argument of the last call, and the empty string when there was none.
\<close>

definition fullResponse_of :: "accumulator \<Rightarrow> jsstring" where
  "fullResponse_of acc = (case onUpdate_calls acc of [] \<Rightarrow> [] | c # cs \<Rightarrow> last (c # cs))"

text \<open>
  \<^verbatim>\<open>analyzeAttackSurface(requests, onProgress)\<close>, given the platform, the stored
  settings and the network; \<open>onProgress\<close> says whether a callback was passed. The result
  is what the function did and what it returned or threw.
\<close>

definition analyzeAttackSurface ::
  "platform \<Rightarrow> storage \<Rightarrow> network \<Rightarrow> request_entry list \<Rightarrow> bool
     \<Rightarrow> effect list \<times> (js_error + category_map)" where
  "analyzeAttackSurface p st net requests onProgress =
     (let settings = getAISettings st in
      if apiKey settings = [] then
        ([], Inl (Error (js ''AI API key not configured. Please set it in Settings.'')))
      else
        (let requestBatch = take 50 requests;
             e1 = report onProgress (building_prompt (length requestBatch));
             prompt = buildAnalysisPrompt p requestBatch;
             e2 = report onProgress (analyzing (length requestBatch))
         in case streamExplanationWithSystem (Number_toString p) net (apiKey settings)
                   (model settings) analysis_system_prompt prompt (provider settings) of
              (req, Inl e) \<Rightarrow> (e1 @ e2 @ [Fetch req], Inl e)
            | (req, Inr acc) \<Rightarrow>
                (let e3 = concat (map (\<lambda>t. report onProgress (streaming t)) (onUpdate_calls acc));
                     fullResponse = fullResponse_of acc;
                     e4 = report onProgress (parsing fullResponse);
                     categories = parseCategories fullResponse
                 in case fill_map (Number_toString p) Map.empty categories of
                      Inl e \<Rightarrow> (e1 @ e2 @ [Fetch req] @ e3 @ e4, Inl e)
                    | Inr categoryMap \<Rightarrow>
                        (e1 @ e2 @ [Fetch req] @ e3 @ e4 @ report onProgress (complete categoryMap),
                         Inr categoryMap))))"


section \<open>Evaluation on concrete inputs\<close>

text \<open>The equations that compute \<open>JSON_parse\<close> and the fence match on a literal.\<close>

lemmas json_eval = JSON_parse_def parse_value.simps parse_elements.simps parse_members.simps
  skip_ws_def is_json_ws_def js_def startsWith_def json_number_def json_unsigned_def
  json_int_part_def json_fraction_def json_exponent_def json_exp_digits_def digits_value_def
  is_digit_def hex4_def hex_digit_def

lemmas fence_eval = jsonText_of_def trim_def is_js_space_def match_at_def match_tag_def fence_def

section \<open>The token limits of the requests\<close>

definition sent_max_tokens :: "http_request \<Rightarrow> nat option" where
  "sent_max_tokens req =
     (case body req of AnthropicBody b \<Rightarrow> Some (max_tokens b) | GeminiBody b \<Rightarrow> None)"

definition sent_maxOutputTokens :: "http_request \<Rightarrow> nat option" where
  "sent_maxOutputTokens req =
     (case body req of
        AnthropicBody b \<Rightarrow> None
      | GeminiBody b \<Rightarrow> Some (maxOutputTokens (generationConfig b)))"

text \<open>
  Claim C3, as the code has it. Whatever the key, the model, the prompts and the network,
  the request of the plain Anthropic entry point carries \<^verbatim>\<open>max_tokens\<close> 1024 and the
  request of the entry point with a system prompt carries 2048; the Gemini requests carry
  \<^verbatim>\<open>maxOutputTokens\<close> 2048 on the plain path and 4096 on the path with a system
  prompt.
\<close>

theorem C3_token_limits:
  "sent_max_tokens (fst (streamExplanationFromClaude nts net key mdl rq)) = Some 1024 \<and>
   sent_max_tokens (fst (streamExplanationFromClaudeWithSystem nts net key mdl sys usr)) = Some 2048 \<and>
   sent_maxOutputTokens (fst (streamExplanationFromGemini nts net key mdl rq)) = Some 2048 \<and>
   sent_maxOutputTokens (fst (streamExplanationFromGeminiWithSystem nts net key mdl sys usr)) = Some 4096"
  by (simp add: sent_max_tokens_def sent_maxOutputTokens_def
      streamExplanationFromClaude_def streamExplanationFromClaudeWithSystem_def
      streamExplanationFromGemini_def streamExplanationFromGeminiWithSystem_def
      claude_stream_def gemini_stream_def claude_request_def claude_system_request_def
      gemini_request_def gemini_system_request_def)

text \<open>
  The plain Anthropic entry point does not send 2048: with an empty key, model and
  request text its request carries another limit.
\<close>

theorem C3_counterexample:
  "sent_max_tokens (fst (streamExplanationFromClaude (\<lambda>n. []) (\<lambda>r. Rejected) [] [] [])) \<noteq> Some 2048"
  by (simp add: sent_max_tokens_def streamExplanationFromClaude_def claude_stream_def
      claude_request_def)

section \<open>\<^verbatim>\<open>parseCategories\<close> on text that is no JSON array\<close>

text \<open>
  Claim C7. When the text left after the fence is stripped is not valid JSON, or is
  valid JSON but not an array, the body of the \<^verbatim>\<open>try\<close> raises an exception, the
  \<^verbatim>\<open>catch\<close> takes it, and \<^verbatim>\<open>parseCategories\<close> returns the empty list.
\<close>

theorem C7_not_an_array:
  assumes "JSON_parse (jsonText_of response) = None \<or>
           (\<exists>v. JSON_parse (jsonText_of response) = Some v \<and> (\<forall>xs. v \<noteq> JArray xs))"
  shows "parseCategories response = [] \<and> (\<exists>e. parseCategories_try response = Inl e)"
  using assms
  by (auto simp: parseCategories_def parseCategories_try_def split: json.splits)

lemma jsonText_of_not_json: "jsonText_of (js ''not json'') = js ''not json''"
  by (simp add: fence_eval js_def startsWith_def)

lemma JSON_parse_not_json: "JSON_parse (js ''not json'') = None"
  by (simp add: json_eval)

lemma jsonText_of_object: "jsonText_of (js ''{\"a\":1}'') = js ''{\"a\":1}''"
  by (simp add: fence_eval js_def startsWith_def)

lemma JSON_parse_object:
  "JSON_parse (js ''{\"a\":1}'') = Some (JObject [(js ''a'', JNumber (JsNum False 1 0))])"
  by (simp add: json_eval)

text \<open>Text that is not JSON, and an object, both give the empty list.\<close>

theorem C7_witness:
  "parseCategories (js ''not json'') = [] \<and> parseCategories (js ''{\"a\":1}'') = []"
  using C7_not_an_array [of "js ''not json''"] C7_not_an_array [of "js ''{\"a\":1}''"]
  by (simp add: jsonText_of_not_json JSON_parse_not_json jsonText_of_object JSON_parse_object)


section \<open>A platform for the examples\<close>

text \<open>
  The examples run on a platform that lower-cases the ASCII letters, finds no URL
  parameters, and writes a number as \<^verbatim>\<open>Number::toString\<close> does: zero as \<^verbatim>\<open>0\<close>, a minus
  sign for a negative number, then the significant digits \<open>s\<close> (\<open>k\<close> of them, without
  trailing zeros) of the value \<open>s \<times> 10 ^ (n - k)\<close>, as an integer when \<open>k \<le> n \<le> 21\<close>, with a
  decimal point when \<open>0 < n \<le> 21\<close>, after \<^verbatim>\<open>0.\<close> and zeros when \<open>-6 < n \<le> 0\<close>, and in
  exponent notation otherwise. This is the engine's string for every literal of at most 15
  significant digits whose value is in the range of the normal doubles, where the shortest
  digits that identify the double are those of the literal.
\<close>

definition ascii_toLowerCase :: "jsstring \<Rightarrow> jsstring" where
  "ascii_toLowerCase s = map (\<lambda>c. if 0x41 \<le> c \<and> c \<le> 0x5A then c + 0x20 else c) s"

function decimal :: "nat \<Rightarrow> jsstring" where
  "decimal n = (if n < 10 then [0x30 + n] else decimal (n div 10) @ [0x30 + n mod 10])"
  by pat_completeness auto
termination
  by (relation "measure (\<lambda>n. n)") auto

declare decimal.simps [simp del]

function strip_zeros :: "nat \<Rightarrow> int \<Rightarrow> nat \<times> int" where
  "strip_zeros d e =
     (if d \<noteq> 0 \<and> d mod 10 = 0 then strip_zeros (d div 10) (e + 1) else (d, e))"
  by pat_completeness auto
termination
  by (relation "measure (\<lambda>(d, e). d)") auto

declare strip_zeros.simps [simp del]

definition decimal_toString :: "jsnum \<Rightarrow> jsstring" where
  "decimal_toString x =
     (if digits x = 0 then js ''0''
      else
        (case strip_zeros (digits x) (exponent x) of (d, e) \<Rightarrow>
           let ds = decimal d; k = int (length ds); n = k + e in
           (if negative x then [0x2D] else []) @
           (if k \<le> n \<and> n \<le> 21 then ds @ replicate (nat (n - k)) 0x30
            else if 0 < n \<and> n \<le> 21 then take (nat n) ds @ [0x2E] @ drop (nat n) ds
            else if - 6 < n \<and> n \<le> 0 then js ''0.'' @ replicate (nat (- n)) 0x30 @ ds
            else take 1 ds @ (if k = 1 then [] else [0x2E] @ drop 1 ds) @ [0x65] @
                 (if 0 \<le> n - 1 then [0x2B] else [0x2D]) @ decimal (nat \<bar>n - 1\<bar>))))"

definition ascii_platform :: platform where
  "ascii_platform =
     \<lparr>toLowerCase = ascii_toLowerCase,
      searchParams_keys = (\<lambda>u. None),
      stringify_summaries = (\<lambda>s. []),
      Number_toString = decimal_toString\<rparr>"

lemma decimal_toString_examples:
  "decimal_toString (JsNum False 1 0) = js ''1''"
  "decimal_toString (JsNum True 1 0) = js ''-1''"
  "decimal_toString (JsNum True 0 3) = js ''0''"
  "decimal_toString (JsNum False 10 (- 1)) = js ''1''"
  "decimal_toString (JsNum False 15 (- 1)) = js ''1.5''"
  "decimal_toString (JsNum False 1 21) = js ''1e+21''"
  "decimal_toString (JsNum False 12 (- 8)) = js ''1.2e-7''"
  by (simp_all add: decimal_toString_def strip_zeros.simps decimal.simps js_def)

section \<open>The missing API key\<close>

text \<open>The stored key of the provider that \<^verbatim>\<open>ai_provider\<close> selects.\<close>

definition active_key_item :: "storage \<Rightarrow> jsstring option" where
  "active_key_item st =
     (if getItem_or st (js ''ai_provider'') (js ''anthropic'') = js ''gemini''
      then st (js ''gemini_api_key'') else st (js ''anthropic_api_key''))"

lemma apiKey_unset:
  "active_key_item st = None \<or> active_key_item st = Some [] \<Longrightarrow> apiKey (getAISettings st) = []"
  by (auto simp: active_key_item_def getAISettings_def getItem_or_def split: if_splits)

text \<open>
  Claim C8. When the key item of the active provider is absent from the storage or is
  the empty string, \<^verbatim>\<open>analyzeAttackSurface\<close> throws the configuration error and has
  done nothing before: no request was sent and \<^verbatim>\<open>onProgress\<close> was not called. The
  function only reads the storage.
\<close>

theorem C8_missing_key:
  assumes "active_key_item st = None \<or> active_key_item st = Some []"
  shows "analyzeAttackSurface p st net requests onProgress =
           ([], Inl (Error (js ''AI API key not configured. Please set it in Settings.'')))"
  using apiKey_unset [OF assms] by (simp add: analyzeAttackSurface_def)

text \<open>
  A storage where Gemini is selected and its key is empty, while the other provider has
  a key.
\<close>

definition gemini_without_key :: storage where
  "gemini_without_key =
     [js ''ai_provider'' \<mapsto> js ''gemini'', js ''anthropic_api_key'' \<mapsto> js ''sk-1'',
      js ''gemini_api_key'' \<mapsto> []]"

lemma active_key_item_empty: "active_key_item Map.empty = None"
  by (simp add: active_key_item_def getItem_or_def js_def)

lemma active_key_item_gemini: "active_key_item gemini_without_key = Some []"
  by (simp add: active_key_item_def gemini_without_key_def getItem_or_def js_def)

text \<open>With an empty storage and with that storage, the call does nothing and throws.\<close>

theorem C8_witness:
  "analyzeAttackSurface ascii_platform Map.empty (\<lambda>r. Response True []) [\<lparr>request = None\<rparr>] True =
     ([], Inl (Error (js ''AI API key not configured. Please set it in Settings.''))) \<and>
   analyzeAttackSurface ascii_platform gemini_without_key (\<lambda>r. Response True []) [\<lparr>request = None\<rparr>] True =
     ([], Inl (Error (js ''AI API key not configured. Please set it in Settings.'')))"
  using C8_missing_key [of Map.empty] C8_missing_key [of gemini_without_key]
  by (simp add: active_key_item_empty active_key_item_gemini)

section \<open>The headers of the summaries\<close>

lemma array_includes_set: "array_includes xs x = (x \<in> set xs)"
  by (induction xs) auto

text \<open>A captured request with the three headers of the example.\<close>

definition example_entry :: request_entry where
  "example_entry =
     \<lparr>request = Some
        \<lparr>har_url = Some (js ''https://example.test/login?next=/''),
         har_method = Some (js ''POST''),
         har_headers = Some
           [\<lparr>header_name = js ''Cookie'', header_value = js ''sid=1''\<rparr>,
            \<lparr>header_name = js ''X-Api-Key'', header_value = js ''k''\<rparr>,
            \<lparr>header_name = js ''Accept'', header_value = js ''*/*''\<rparr>]\<rparr>\<rparr>"

text \<open>
  Claim C9. In \<^verbatim>\<open>requestSummaries\<close> the headers listed for each request are the names
  of the request's own headers (none when the request or its header list is missing), in
  their order, without those whose lower-case form is \<^verbatim>\<open>cookie\<close>,
  \<^verbatim>\<open>authorization\<close> or \<^verbatim>\<open>x-api-key\<close>. On a platform that lower-cases the three
  names of the example as ASCII, the request with the headers \<^verbatim>\<open>Cookie\<close>,
  \<^verbatim>\<open>X-Api-Key\<close>, \<^verbatim>\<open>Accept\<close> is summarised with \<^verbatim>\<open>Accept\<close> alone.
\<close>

theorem C9_header_redaction:
  "map summary_headers (requestSummaries p requests) =
     map (\<lambda>req. filter (\<lambda>h. toLowerCase p h \<notin> {js ''cookie'', js ''authorization'', js ''x-api-key''})
                   (map header_name
                      (case request req of
                         None \<Rightarrow> []
                       | Some r \<Rightarrow> (case har_headers r of None \<Rightarrow> [] | Some hs \<Rightarrow> hs))))
         requests
   \<and> (toLowerCase p (js ''Cookie'') = js ''cookie'' \<and>
      toLowerCase p (js ''X-Api-Key'') = js ''x-api-key'' \<and>
      toLowerCase p (js ''Accept'') = js ''accept''
      \<longrightarrow> map summary_headers (requestSummaries p [example_entry]) = [[js ''Accept'']])"
proof
  define G where "G = (\<lambda>req :: request_entry. filter (\<lambda>h. toLowerCase p h \<notin> {js ''cookie'', js ''authorization'', js ''x-api-key''})
                   (map header_name
                      (case request req of
                         None \<Rightarrow> []
                       | Some r \<Rightarrow> (case har_headers r of None \<Rightarrow> [] | Some hs \<Rightarrow> hs))))"
  have one: "summary_headers (summarize p i req) = G req" for i req
    by (simp add: G_def summarize_def headerNames_def array_includes_set sensitive_headers_def
        split: option.splits)
  have gen: "map summary_headers (requestSummaries p rs) = map G rs" for rs
  proof -
    have "map summary_headers (requestSummaries p rs) = map (G \<circ> snd) (enumerate 0 rs)"
      by (simp add: requestSummaries_def case_prod_unfold one comp_def)
    also have "\<dots> = map G (map snd (enumerate 0 rs))" by (simp only: map_map)
    also have "\<dots> = map G rs" by (simp only: map_snd_enumerate)
    finally show ?thesis .
  qed
  show "map summary_headers (requestSummaries p requests) =
     map (\<lambda>req. filter (\<lambda>h. toLowerCase p h \<notin> {js ''cookie'', js ''authorization'', js ''x-api-key''})
                   (map header_name
                      (case request req of
                         None \<Rightarrow> []
                       | Some r \<Rightarrow> (case har_headers r of None \<Rightarrow> [] | Some hs \<Rightarrow> hs))))
         requests"
    using gen [of requests] by (simp only: G_def)
  show "toLowerCase p (js ''Cookie'') = js ''cookie'' \<and>
      toLowerCase p (js ''X-Api-Key'') = js ''x-api-key'' \<and>
      toLowerCase p (js ''Accept'') = js ''accept''
      \<longrightarrow> map summary_headers (requestSummaries p [example_entry]) = [[js ''Accept'']]"
    unfolding gen by (simp add: G_def example_entry_def js_def)
qed

lemma ascii_lower_examples:
  "ascii_toLowerCase (js ''Cookie'') = js ''cookie''"
  "ascii_toLowerCase (js ''X-Api-Key'') = js ''x-api-key''"
  "ascii_toLowerCase (js ''Accept'') = js ''accept''"
  by (simp_all add: ascii_toLowerCase_def js_def)

text \<open>
  The example on the platform that lower-cases ASCII letters, and two requests without
  headers: one without \<^verbatim>\<open>request\<close>, one whose \<^verbatim>\<open>request\<close> has no \<^verbatim>\<open>headers\<close>.
\<close>

theorem C9_witness:
  "map summary_headers (requestSummaries ascii_platform [example_entry]) = [[js ''Accept'']] \<and>
   map summary_headers
     (requestSummaries ascii_platform
        [\<lparr>request = None\<rparr>,
         \<lparr>request = Some \<lparr>har_url = None, har_method = None, har_headers = None\<rparr>\<rparr>]) = [[], []]"
  using C9_header_redaction [of ascii_platform "[]"]
    C9_header_redaction [of ascii_platform
      "[\<lparr>request = None\<rparr>,
        \<lparr>request = Some \<lparr>har_url = None, har_method = None, har_headers = None\<rparr>\<rparr>]"]
  by (simp add: ascii_platform_def ascii_lower_examples)


section \<open>The text deltas of a stream\<close>

text \<open>
  The text fragments a stream carries, read off the shape of its events and without
  the state of the reader. An Anthropic event carries the fragment \<^verbatim>\<open>delta.text\<close>
  when its type is \<^verbatim>\<open>content_block_delta\<close> and the text is truthy and has a string.
\<close>

definition claude_event_deltas :: "(jsnum \<Rightarrow> jsstring) \<Rightarrow> json \<Rightarrow> jsstring list" where
  "claude_event_deltas nts data =
     (case data of
        JObject kvs \<Rightarrow>
          if own_property kvs (js ''type'') = Some (JString (js ''content_block_delta'')) then
            (case own_property kvs (js ''delta'') of
               Some (JObject dkvs) \<Rightarrow>
                 (case own_property dkvs (js ''text'') of
                    None \<Rightarrow> []
                  | Some t \<Rightarrow>
                      if truthy t then (case toString nts t of Inl e \<Rightarrow> [] | Inr s \<Rightarrow> [s])
                      else [])
             | _ \<Rightarrow> [])
          else []
      | _ \<Rightarrow> [])"

text \<open>A line carries the fragment of its payload when it begins with \<^verbatim>\<open>data: \<close>
  and the payload is not the sentinel.\<close>

definition claude_line_deltas :: "(jsnum \<Rightarrow> jsstring) \<Rightarrow> jsstring \<Rightarrow> jsstring list" where
  "claude_line_deltas nts line =
     (if startsWith line (js ''data: '') \<and> slice_from 6 line \<noteq> js ''[DONE]'' then
        (case JSON_parse (slice_from 6 line) of
           None \<Rightarrow> []
         | Some data \<Rightarrow> claude_event_deltas nts data)
      else [])"

text \<open>The fragments of the whole body, chunk by chunk and line by line.\<close>

fun claude_deltas :: "(jsnum \<Rightarrow> jsstring) \<Rightarrow> text_decoder \<Rightarrow> byte list list \<Rightarrow> jsstring list" where
  "claude_deltas nts decoder [] = []"
| "claude_deltas nts decoder (chunk_bytes # rest) =
     (case decode_stream decoder chunk_bytes of
        (decoder', chunk) \<Rightarrow>
          concat (map (claude_line_deltas nts) (split chunk 0x0A)) @ claude_deltas nts decoder' rest)"

text \<open>Appending fragments one after the other, each with its call of the callback.\<close>

fun append_deltas :: "accumulator \<Rightarrow> jsstring list \<Rightarrow> accumulator" where
  "append_deltas acc [] = acc"
| "append_deltas acc (d # ds) = append_deltas (append_delta acc d) ds"

lemma append_deltas_append:
  "append_deltas acc (xs @ ys) = append_deltas (append_deltas acc xs) ys"
  by (induction xs arbitrary: acc) simp_all

lemma claude_line_deltas: "claude_line nts acc line = append_deltas acc (claude_line_deltas nts line)"
  by (auto simp: claude_line_def claude_line_deltas_def claude_try_def claude_event_deltas_def
      get_prop_def Let_def split: option.splits json.splits sum.splits)

lemma claude_lines_deltas:
  "claude_lines nts acc lines = append_deltas acc (concat (map (claude_line_deltas nts) lines))"
  by (induction lines arbitrary: acc) (simp_all add: claude_line_deltas append_deltas_append)

lemma claude_read_loop_deltas:
  "claude_read_loop nts decoder acc chunks = append_deltas acc (claude_deltas nts decoder chunks)"
  by (induction chunks arbitrary: decoder acc)
     (simp_all add: claude_lines_deltas append_deltas_append split: prod.splits)

lemma fullText_append_deltas: "fullText (append_deltas acc ds) = fullText acc @ concat ds"
  by (induction ds arbitrary: acc) (simp_all add: append_delta_def)

lemma calls_append_deltas:
  "onUpdate_calls (append_deltas acc ds) =
     onUpdate_calls acc @ map (\<lambda>k. fullText acc @ concat (take (Suc k) ds)) [0..<length ds]"
proof (induction ds arbitrary: acc)
  case Nil
  show ?case by simp
next
  case (Cons d ds)
  have "map (\<lambda>k. fullText acc @ concat (take (Suc k) (d # ds))) [0..<length (d # ds)] =
        (fullText acc @ d) # map (\<lambda>k. fullText acc @ d @ concat (take (Suc k) ds)) [0..<length ds]"
    by (simp add: upt_conv_Cons map_Suc_upt [symmetric] del: upt_Suc)
  then show ?case
    by (simp add: Cons.IH append_delta_def del: upt_Suc)
qed



text \<open>
  A Gemini event carries the texts of the parts of its first candidate, in the order of
  the array, up to the first part that makes the loop throw.
\<close>

fun gemini_parts_deltas :: "(jsnum \<Rightarrow> jsstring) \<Rightarrow> json list \<Rightarrow> jsstring list" where
  "gemini_parts_deltas nts [] = []"
| "gemini_parts_deltas nts (part # parts) =
     (case part of
        JNull \<Rightarrow> []
      | JObject kvs \<Rightarrow>
          (case own_property kvs (js ''text'') of
             None \<Rightarrow> gemini_parts_deltas nts parts
           | Some t \<Rightarrow>
               if truthy t then
                 (case toString nts t of
                    Inl e \<Rightarrow> []
                  | Inr s \<Rightarrow> s # gemini_parts_deltas nts parts)
               else gemini_parts_deltas nts parts)
      | _ \<Rightarrow> gemini_parts_deltas nts parts)"

definition first_candidate :: "json \<Rightarrow> json option" where
  "first_candidate candidates =
     (case candidates of
        JArray xs \<Rightarrow> (case xs of [] \<Rightarrow> None | x # _ \<Rightarrow> Some x)
      | JObject kvs \<Rightarrow> own_property kvs (js ''0'')
      | _ \<Rightarrow> None)"

definition gemini_event_deltas :: "(jsnum \<Rightarrow> jsstring) \<Rightarrow> json \<Rightarrow> jsstring list" where
  "gemini_event_deltas nts data =
     (case data of
        JObject kvs \<Rightarrow>
          (case own_property kvs (js ''candidates'') of
             None \<Rightarrow> []
           | Some candidates \<Rightarrow>
               if truthy candidates then
                 (case first_candidate candidates of
                    Some (JObject ckvs) \<Rightarrow>
                      (case own_property ckvs (js ''content'') of
                         Some (JObject pkvs) \<Rightarrow>
                           (case own_property pkvs (js ''parts'') of
                              Some (JArray parts) \<Rightarrow> gemini_parts_deltas nts parts
                            | _ \<Rightarrow> [])
                       | _ \<Rightarrow> [])
                  | _ \<Rightarrow> [])
               else [])
      | _ \<Rightarrow> [])"

definition gemini_line_deltas :: "(jsnum \<Rightarrow> jsstring) \<Rightarrow> jsstring \<Rightarrow> jsstring list" where
  "gemini_line_deltas nts line =
     (if startsWith line (js ''data: '') then
        (case JSON_parse (trim (slice_from 6 line)) of
           None \<Rightarrow> []
         | Some data \<Rightarrow> gemini_event_deltas nts data)
      else [])"

fun gemini_deltas :: "(jsnum \<Rightarrow> jsstring) \<Rightarrow> text_decoder \<Rightarrow> byte list list \<Rightarrow> jsstring list" where
  "gemini_deltas nts decoder [] = []"
| "gemini_deltas nts decoder (chunk_bytes # rest) =
     (case decode_stream decoder chunk_bytes of
        (decoder', chunk) \<Rightarrow>
          concat (map (gemini_line_deltas nts) (split chunk 0x0A)) @ gemini_deltas nts decoder' rest)"

lemma JSON_parse_empty: "JSON_parse [] = None"
  by (simp add: JSON_parse_def parse_value.simps skip_ws_def)

lemma gemini_parts_deltas:
  "fst (gemini_parts nts acc parts) = append_deltas acc (gemini_parts_deltas nts parts)"
  by (induction parts arbitrary: acc)
     (auto simp: get_prop_def split: json.splits option.splits sum.splits)

lemma gemini_try_deltas:
  "fst (gemini_try nts acc dataStr) =
     append_deltas acc (case JSON_parse dataStr of None \<Rightarrow> [] | Some data \<Rightarrow> gemini_event_deltas nts data)"
  by (auto simp: gemini_try_def gemini_event_deltas_def gemini_for_of_def first_candidate_def
      get_prop_def get_prop_opt_def get_index0_def gemini_parts_deltas
      split: option.splits json.splits sum.splits list.splits)

lemma gemini_line_deltas: "gemini_line nts acc line = append_deltas acc (gemini_line_deltas nts line)"
  by (simp add: gemini_line_def gemini_line_deltas_def gemini_try_deltas Let_def JSON_parse_empty)

lemma gemini_lines_deltas:
  "gemini_lines nts acc lines = append_deltas acc (concat (map (gemini_line_deltas nts) lines))"
  by (induction lines arbitrary: acc) (simp_all add: gemini_line_deltas append_deltas_append)

lemma gemini_read_loop_deltas:
  "gemini_read_loop nts decoder acc chunks = append_deltas acc (gemini_deltas nts decoder chunks)"
  by (induction chunks arbitrary: decoder acc)
     (simp_all add: gemini_lines_deltas append_deltas_append split: prod.splits)

section \<open>The decoder and the lines across chunks\<close>

lemma utf8_run_append:
  "utf8_run st (a @ b) =
     (case utf8_run st a of (st1, o1) \<Rightarrow> (case utf8_run st1 b of (st2, o2) \<Rightarrow> (st2, o1 @ o2)))"
  by (induction a arbitrary: st) (simp_all split: prod.splits)

lemma serialize_append:
  "serialize seen (a @ b) =
     (case serialize seen a of (s1, o1) \<Rightarrow> (case serialize s1 b of (s2, o2) \<Rightarrow> (s2, o1 @ o2)))"
  by (induction a arbitrary: seen) (auto split: prod.splits)

lemma decode_stream_append:
  "decode_stream d (a @ b) =
     (case decode_stream d a of
        (d1, t1) \<Rightarrow> (case decode_stream d1 b of (d2, t2) \<Rightarrow> (d2, t1 @ t2)))"
  by (simp add: decode_stream_def utf8_run_append serialize_append split: prod.splits)

lemma decode_stream_Nil: "decode_stream d [] = (d, [])"
  by (simp add: decode_stream_def)

text \<open>The lower boundary of a decoder state that was reached from the reset state.\<close>

definition utf8_ok :: "utf8_state \<Rightarrow> bool" where
  "utf8_ok st = (0x80 \<le> lower_boundary st)"

lemma utf8_lead_ok: "utf8_ok st \<Longrightarrow> utf8_ok (fst (utf8_lead st b))"
  by (simp add: utf8_lead_def utf8_ok_def)

lemma utf8_handler_ok: "utf8_ok st \<Longrightarrow> utf8_ok (fst (utf8_handler st b))"
  by (auto simp: utf8_handler_def utf8_lead_def utf8_ok_def utf8_reset_def Let_def split: prod.splits)

lemma utf8_run_ok: "utf8_ok st \<Longrightarrow> utf8_ok (fst (utf8_run st bs))"
proof (induction bs arbitrary: st)
  case Nil
  then show ?case by simp
next
  case (Cons b bs)
  from Cons.prems have "utf8_ok (fst (utf8_handler st (unat b)))" by (rule utf8_handler_ok)
  then have "utf8_ok (fst (utf8_run (fst (utf8_handler st (unat b))) bs))" by (rule Cons.IH)
  then show ?case by (auto split: prod.splits)
qed

lemma utf8_handler_newline:
  "utf8_ok st \<Longrightarrow> \<exists>pre. snd (utf8_handler st 0x0A) = pre @ [0x0A]"
  by (auto simp: utf8_handler_def utf8_lead_def utf8_ok_def utf8_reset_def)

lemma utf8_run_newline:
  assumes "utf8_ok st"
  shows "\<exists>pre. snd (utf8_run st (bs @ [0x0A])) = pre @ [0x0A]"
proof -
  obtain st1 o1 where r: "utf8_run st bs = (st1, o1)" by (cases "utf8_run st bs")
  have "utf8_ok st1" using utf8_run_ok [OF assms, of bs] r by simp
  then obtain pre where "snd (utf8_handler st1 0x0A) = pre @ [0x0A]"
    using utf8_handler_newline by blast
  then show ?thesis
    by (auto simp: utf8_run_append r split: prod.splits)
qed

lemma serialize_newline: "\<exists>pre. snd (serialize seen (cps @ [0x0A])) = pre @ [0x0A]"
  by (auto simp: serialize_append utf16_units_def split: prod.splits)

lemma decode_stream_newline:
  assumes "utf8_ok (utf8 d)"
  shows "\<exists>pre. snd (decode_stream d (bs @ [0x0A])) = pre @ [0x0A]"
proof -
  obtain pre where "snd (utf8_run (utf8 d) (bs @ [0x0A])) = pre @ [0x0A]"
    using utf8_run_newline [OF assms] by blast
  moreover obtain pre' where "snd (serialize (bom_seen d) (pre @ [0x0A])) = pre' @ [0x0A]"
    using serialize_newline by blast
  ultimately show ?thesis
    by (auto simp: decode_stream_def split: prod.splits)
qed

lemma decode_stream_ok: "utf8_ok (utf8 d) \<Longrightarrow> utf8_ok (utf8 (fst (decode_stream d bs)))"
  using utf8_run_ok [of "utf8 d" bs] by (auto simp: decode_stream_def split: prod.splits)

lemma split_acc_sep:
  "split_acc sep cur (a @ sep # b) = split_acc sep cur a @ split_acc sep [] b"
  by (induction a arbitrary: cur) simp_all

lemma split_sep: "split (a @ sep # b) sep = split a sep @ split b sep"
  by (simp add: split_def split_acc_sep)

lemma claude_lines_append:
  "claude_lines nts acc (xs @ ys) = claude_lines nts (claude_lines nts acc xs) ys"
  by (induction xs arbitrary: acc) simp_all

lemma claude_line_empty: "claude_line nts acc [] = acc"
  by (simp add: claude_line_def startsWith_def js_def)

lemma claude_lines_aligned:
  assumes "t = [] \<or> (\<exists>pre. t = pre @ [0x0A])"
  shows "claude_lines nts acc (split (t @ t') 0x0A) =
         claude_lines nts (claude_lines nts acc (split t 0x0A)) (split t' 0x0A)"
proof -
  from assms show ?thesis
  proof
    assume "t = []"
    then show ?thesis by (simp add: split_def claude_line_empty)
  next
    assume "\<exists>pre. t = pre @ [0x0A]"
    then obtain pre where t: "t = pre @ [0x0A]" ..
    have "split (t @ t') 0x0A = split pre 0x0A @ split t' 0x0A"
      unfolding t by (simp add: split_sep)
    moreover have "split t 0x0A = split pre 0x0A @ [[]]"
      unfolding t using split_sep [of pre "0x0A" "[]"] by (simp add: split_def)
    ultimately show ?thesis
      by (simp add: claude_lines_append claude_line_empty)
  qed
qed

lemma claude_read_loop_aligned:
  assumes "\<forall>c \<in> set (butlast chunks). c = [] \<or> last c = 0x0A"
    and "utf8_ok (utf8 d)"
  shows "claude_read_loop nts d acc chunks = claude_read_loop nts d acc [concat chunks]"
  using assms
proof (induction chunks arbitrary: d acc)
  case Nil
  show ?case by (simp add: decode_stream_Nil split_def claude_line_empty)
next
  case (Cons c cs)
  show ?case
  proof (cases "cs = []")
    case True
    then show ?thesis by simp
  next
    case False
    obtain d1 t where dc: "decode_stream d c = (d1, t)" by (cases "decode_stream d c")
    obtain d2 t' where dcs: "decode_stream d1 (concat cs) = (d2, t')"
      by (cases "decode_stream d1 (concat cs)")
    have ok1: "utf8_ok (utf8 d1)" using decode_stream_ok [OF Cons.prems(2), of c] dc by simp
    have rest: "\<forall>c \<in> set (butlast cs). c = [] \<or> last c = 0x0A"
      using Cons.prems(1) False by simp
    have c: "c = [] \<or> last c = 0x0A" using Cons.prems(1) False by simp
    have t: "t = [] \<or> (\<exists>pre. t = pre @ [0x0A])"
    proof (cases "c = []")
      case True
      then show ?thesis using dc by (simp add: decode_stream_Nil)
    next
      case False
      with c have "c = butlast c @ [0x0A]" by (metis append_butlast_last_id)
      then show ?thesis
        using decode_stream_newline [OF Cons.prems(2), of "butlast c"] dc by auto
    qed
    have "claude_read_loop nts d acc (c # cs) =
          claude_read_loop nts d1 (claude_lines nts acc (split t 0x0A)) cs"
      by (simp add: dc)
    also have "\<dots> = claude_read_loop nts d1 (claude_lines nts acc (split t 0x0A)) [concat cs]"
      using rest ok1 by (rule Cons.IH)
    also have "\<dots> = claude_lines nts (claude_lines nts acc (split t 0x0A)) (split t' 0x0A)"
      by (simp add: dcs)
    also have "\<dots> = claude_lines nts acc (split (t @ t') 0x0A)"
      using claude_lines_aligned [OF t] by simp
    also have "\<dots> = claude_read_loop nts d acc [concat (c # cs)]"
      by (simp add: decode_stream_append dc dcs)
    finally show ?thesis .
  qed
qed

lemma length_concat_take: "length (concat (take m xs)) \<le> length (concat xs)"
proof -
  have "concat xs = concat (take m xs) @ concat (drop m xs)"
    by (metis append_take_drop_id concat_append)
  then show ?thesis by simp
qed

lemma sorted_prefix_lengths:
  "sorted (map (\<lambda>k. length (concat (take (Suc k) ds))) [0..<n])"
proof -
  have "length (concat (take (Suc i) ds)) \<le> length (concat (take (Suc j) ds))" if "i \<le> j" for i j
  proof -
    have "take (Suc i) ds = take (Suc i) (take (Suc j) ds)" using that by (simp add: min_def)
    then show ?thesis using length_concat_take [of "Suc i" "take (Suc j) ds"] by simp
  qed
  then show ?thesis
    by (auto simp: sorted_iff_nth_mono)
qed

text \<open>
  What the accumulator has done after the fragments \<open>ds\<close>: the text is their
  concatenation; the callback was called once for each fragment, the \<open>k\<close>-th call with
  the concatenation of the first \<open>k + 1\<close> fragments, which is the argument of the call
  before it followed by the \<open>k\<close>-th fragment; and the lengths of the arguments never
  decrease.
\<close>

definition accumulated :: "accumulator \<Rightarrow> jsstring list \<Rightarrow> bool" where
  "accumulated acc ds =
     (fullText acc = concat ds \<and>
      length (onUpdate_calls acc) = length ds \<and>
      onUpdate_calls acc = map (\<lambda>k. concat (take (Suc k) ds)) [0..<length ds] \<and>
      onUpdate_calls acc =
        map (\<lambda>k. (if k = 0 then [] else onUpdate_calls acc ! (k - 1)) @ ds ! k) [0..<length ds] \<and>
      sorted (map length (onUpdate_calls acc)))"

lemma accumulated_append_deltas: "accumulated (append_deltas new_accumulator ds) ds"
proof -
  let ?acc = "append_deltas new_accumulator ds"
  have calls: "onUpdate_calls ?acc = map (\<lambda>k. concat (take (Suc k) ds)) [0..<length ds]"
    by (simp add: calls_append_deltas new_accumulator_def)
  have step: "onUpdate_calls ?acc =
        map (\<lambda>k. (if k = 0 then [] else onUpdate_calls ?acc ! (k - 1)) @ ds ! k) [0..<length ds]"
    unfolding calls
  proof (rule map_cong [OF refl])
    fix k assume "k \<in> set [0..<length ds]"
    then have k: "k < length ds" by simp
    show "concat (take (Suc k) ds) =
          (if k = 0 then [] else map (\<lambda>k. concat (take (Suc k) ds)) [0..<length ds] ! (k - 1)) @ ds ! k"
    proof (cases k)
      case 0
      with k show ?thesis by (simp add: take_Suc_conv_app_nth)
    next
      case (Suc j)
      with k have "map (\<lambda>k. concat (take (Suc k) ds)) [0..<length ds] ! (k - 1) =
                  concat (take k ds)" by simp
      moreover have "concat (take (Suc k) ds) = concat (take k ds) @ ds ! k"
        using k by (simp add: take_Suc_conv_app_nth)
      ultimately show ?thesis using Suc by simp
    qed
  qed
  have mono: "sorted (map length (onUpdate_calls ?acc))"
    unfolding calls using sorted_prefix_lengths [of ds "length ds"] by (simp add: comp_def)
  show ?thesis
    unfolding accumulated_def using calls step mono
    by (simp add: fullText_append_deltas new_accumulator_def)
qed

text \<open>
  Claim C2. For every body, delivered in any chunks, the read loop of the Anthropic
  functions and the read loop of the Gemini functions, started with an empty text, end
  in the state that the fragments of the stream give: the text returned is the
  concatenation of all fragments, and the callback was called exactly once per fragment
  with the cumulative text, each argument extending the previous one by that fragment.
  The statement holds for every list of chunks, hence for every prefix of a stream.
\<close>

theorem C2_accumulator:
  "accumulated (claude_read_loop nts new_TextDecoder new_accumulator chunks)
     (claude_deltas nts new_TextDecoder chunks) \<and>
   accumulated (gemini_read_loop nts new_TextDecoder new_accumulator chunks)
     (gemini_deltas nts new_TextDecoder chunks)"
  by (simp add: claude_read_loop_deltas gemini_read_loop_deltas accumulated_append_deltas)

section \<open>Payloads that carry no text\<close>

text \<open>
  Claim C4. A line \<^verbatim>\<open>data: \<close> whose payload is \<^verbatim>\<open>[DONE]\<close>, is empty, or is
  not valid JSON leaves the state of the Anthropic reader as it was, and the lines after
  it are processed as if it were not there: no exception leaves the loop over the lines.
\<close>

theorem C4_ignored_payloads:
  assumes "line = js ''data: '' @ payload"
    and "payload = js ''[DONE]'' \<or> payload = [] \<or> JSON_parse payload = None"
  shows "claude_line nts acc line = acc \<and>
         claude_lines nts acc (before @ line # after) = claude_lines nts acc (before @ after)"
proof -
  have "slice_from 6 line = payload" using assms(1) by (simp add: slice_from_def js_def)
  moreover have "JSON_parse [] = None" by (rule JSON_parse_empty)
  ultimately have one: "claude_line nts a line = a" for a
    using assms(2) by (auto simp: claude_line_def claude_try_def Let_def)
  then show ?thesis by (simp add: claude_lines_append)
qed

text \<open>A line whose payload is a text event appends its text.\<close>

lemma claude_line_event:
  assumes "JSON_parse payload =
             Some (JObject [(js ''type'', JString (js ''content_block_delta'')),
                            (js ''delta'', JObject [(js ''text'', JString s)])])"
    and "payload \<noteq> js ''[DONE]''" and "s \<noteq> []"
  shows "claude_line nts acc (js ''data: '' @ payload) = append_delta acc s"
proof -
  have sl: "slice_from 6 (js ''data: '' @ payload) = payload" by (simp add: slice_from_def js_def)
  have st: "startsWith (js ''data: '' @ payload) (js ''data: '')" by (simp add: startsWith_def js_def)
  have ty: "own_property [(js ''type'', JString (js ''content_block_delta'')),
                          (js ''delta'', JObject [(js ''text'', JString s)])] (js ''type'') =
            Some (JString (js ''content_block_delta''))"
    by (simp add: own_property_def js_def)
  have de: "own_property [(js ''type'', JString (js ''content_block_delta'')),
                          (js ''delta'', JObject [(js ''text'', JString s)])] (js ''delta'') =
            Some (JObject [(js ''text'', JString s)])"
    by (simp add: own_property_def js_def)
  have te: "own_property [(js ''text'', JString s)] (js ''text'') = Some (JString s)"
    by (simp add: own_property_def)
  show ?thesis
    using assms(2,3)
    by (simp add: claude_line_def sl st Let_def claude_try_def assms(1) get_prop_def ty de te)
qed

definition delta_line :: jsstring where
  "delta_line = js ''data: {\"type\":\"content_block_delta\",\"delta\":{\"text\":\"hi\"}}''"

lemma delta_line_parse:
  "JSON_parse (js ''{\"type\":\"content_block_delta\",\"delta\":{\"text\":\"hi\"}}'') =
     Some (JObject [(js ''type'', JString (js ''content_block_delta'')),
                    (js ''delta'', JObject [(js ''text'', JString (js ''hi''))])])"
  by (simp add: json_eval)

lemma claude_line_delta_line:
  "claude_line nts acc delta_line = append_delta acc (js ''hi'')"
proof -
  have "delta_line = js ''data: '' @ js ''{\"type\":\"content_block_delta\",\"delta\":{\"text\":\"hi\"}}''"
    by (simp add: delta_line_def js_def)
  moreover have "js ''{\"type\":\"content_block_delta\",\"delta\":{\"text\":\"hi\"}}'' \<noteq> js ''[DONE]''"
    by (simp add: js_def)
  moreover have "js ''hi'' \<noteq> []" by (simp add: js_def)
  ultimately show ?thesis using claude_line_event [OF delta_line_parse] by simp
qed

text \<open>
  After the sentinel, after an empty payload and after a cut-off payload, the next event
  still appends its text.
\<close>

theorem C4_witness:
  "claude_lines (\<lambda>n. []) new_accumulator [js ''data: [DONE]'', delta_line] =
     \<lparr>fullText = js ''hi'', onUpdate_calls = [js ''hi'']\<rparr> \<and>
   claude_lines (\<lambda>n. []) new_accumulator [js ''data: '', delta_line] =
     \<lparr>fullText = js ''hi'', onUpdate_calls = [js ''hi'']\<rparr> \<and>
   claude_lines (\<lambda>n. []) new_accumulator [js ''data: {\"type\":'', delta_line] =
     \<lparr>fullText = js ''hi'', onUpdate_calls = [js ''hi'']\<rparr>"
proof -
  have bad: "JSON_parse (js ''{\"type\":'') = None" by (simp add: json_eval)
  have l1: "js ''data: [DONE]'' = js ''data: '' @ js ''[DONE]''" by (simp add: js_def)
  have l2: "js ''data: '' = js ''data: '' @ []" by simp
  have l3: "js ''data: {\"type\":'' = js ''data: '' @ js ''{\"type\":''" by (simp add: js_def)
  have good: "claude_lines (\<lambda>n. []) new_accumulator [delta_line] =
     \<lparr>fullText = js ''hi'', onUpdate_calls = [js ''hi'']\<rparr>"
    by (simp add: claude_line_delta_line append_delta_def new_accumulator_def)
  show ?thesis
    using C4_ignored_payloads [OF l1, of "\<lambda>n. []" new_accumulator "[]" "[delta_line]"]
      C4_ignored_payloads [OF l2, of "\<lambda>n. []" new_accumulator "[]" "[delta_line]"]
      C4_ignored_payloads [OF l3, of "\<lambda>n. []" new_accumulator "[]" "[delta_line]"]
      bad good
    by simp
qed


section \<open>Chunk boundaries\<close>

text \<open>The bytes of an ASCII literal, and the decoded text of each chunk of a body.\<close>

definition ascii_bytes :: "string \<Rightarrow> byte list" where
  "ascii_bytes s = map of_char s"

fun chunk_texts :: "text_decoder \<Rightarrow> byte list list \<Rightarrow> jsstring list" where
  "chunk_texts decoder [] = []"
| "chunk_texts decoder (chunk_bytes # rest) =
     (case decode_stream decoder chunk_bytes of
        (decoder', chunk) \<Rightarrow> chunk # chunk_texts decoder' rest)"

lemma chunk_texts_concat:
  "concat (chunk_texts d chunks) = snd (decode_stream d (concat chunks))"
proof (induction chunks arbitrary: d)
  case Nil
  show ?case by (simp add: decode_stream_Nil)
next
  case (Cons c cs)
  show ?case
    by (simp add: decode_stream_append Cons.IH split: prod.splits)
qed

text \<open>
  Claim C1, as the code has it. The decoder keeps its state between chunks, so the
  decoded text of a body does not depend on how it is cut into chunks. The reader splits
  each decoded chunk into lines on its own and keeps no unfinished line, so it gives the
  same result as for the body in one chunk when every chunk but the last is empty or
  ends with a line feed.
\<close>

theorem C1_line_aligned_chunks:
  "concat (chunk_texts new_TextDecoder chunks) = concat (chunk_texts new_TextDecoder [concat chunks])
   \<and> ((\<forall>c \<in> set (butlast chunks). c = [] \<or> last c = 0x0A) \<longrightarrow>
        claude_read_loop nts new_TextDecoder new_accumulator chunks =
        claude_read_loop nts new_TextDecoder new_accumulator [concat chunks])"
proof -
  have "utf8_ok (utf8 new_TextDecoder)"
    by (simp add: utf8_ok_def new_TextDecoder_def utf8_reset_def)
  then show ?thesis
    using claude_read_loop_aligned [of chunks new_TextDecoder nts new_accumulator]
    by (simp add: chunk_texts_concat split: prod.splits)
qed

text \<open>
  A body cut inside a \<^verbatim>\<open>data: \<close> line: neither half is an event. First a cut
  inside the type of the event, then a cut between the two bytes of the letter U+00E9.
\<close>

lemmas decode_eval = decode_stream_def new_TextDecoder_def utf8_reset_def utf8_handler_def
  utf8_lead_def utf16_units_def ascii_bytes_def

lemma decode_first_half:
  "decode_stream new_TextDecoder (ascii_bytes ''data: {\"type\":\"content_blo'') =
     (\<lparr>utf8 = utf8_reset, bom_seen = True\<rparr>, js ''data: {\"type\":\"content_blo'')"
  by (simp add: decode_eval js_def)

lemma decode_second_half:
  "decode_stream \<lparr>utf8 = utf8_reset, bom_seen = True\<rparr>
       (ascii_bytes ''ck_delta\",\"delta\":{\"text\":\"hi\"}}'') =
     (\<lparr>utf8 = utf8_reset, bom_seen = True\<rparr>, js ''ck_delta\",\"delta\":{\"text\":\"hi\"}}'')"
  by (simp add: decode_eval js_def)

lemma first_half_lost:
  "claude_line nts acc (js ''data: {\"type\":\"content_blo'') = acc"
proof -
  have "JSON_parse (js ''{\"type\":\"content_blo'') = None" by (simp add: json_eval)
  moreover have "slice_from 6 (js ''data: {\"type\":\"content_blo'') = js ''{\"type\":\"content_blo''"
    by (simp add: slice_from_def js_def)
  ultimately show ?thesis by (simp add: claude_line_def claude_try_def Let_def)
qed

lemma second_half_lost:
  "claude_line nts acc (js ''ck_delta\",\"delta\":{\"text\":\"hi\"}}'') = acc"
  by (simp add: claude_line_def startsWith_def js_def)


lemma split_no_newline_first: "split (js ''data: {\"type\":\"content_blo'') 0x0A = [js ''data: {\"type\":\"content_blo'']"
  by (simp add: split_def js_def)

lemma split_no_newline_second:
  "split (js ''ck_delta\",\"delta\":{\"text\":\"hi\"}}'') 0x0A = [js ''ck_delta\",\"delta\":{\"text\":\"hi\"}}'']"
  by (simp add: split_def js_def)

lemma split_delta_line: "split delta_line 0x0A = [delta_line]"
  by (simp add: split_def delta_line_def js_def)

lemma halves_delta_line:
  "js ''data: {\"type\":\"content_blo'' @ js ''ck_delta\",\"delta\":{\"text\":\"hi\"}}'' = delta_line"
  by (simp add: delta_line_def js_def)

definition e_acute_head :: "byte list" where
  "e_acute_head = ascii_bytes ''data: {\"type\":\"content_block_delta\",\"delta\":{\"text\":\"'' @ [0xC3]"

definition e_acute_tail :: "byte list" where
  "e_acute_tail = [0xA9] @ ascii_bytes ''\"}}''"

lemma decode_e_acute_head:
  "decode_stream new_TextDecoder e_acute_head =
     (\<lparr>utf8 = \<lparr>code_point = 3, bytes_seen = 0, bytes_needed = Suc 0,
                lower_boundary = 0x80, upper_boundary = 0xBF\<rparr>, bom_seen = True\<rparr>,
      js ''data: {\"type\":\"content_block_delta\",\"delta\":{\"text\":\"'')"
  by (simp add: decode_eval e_acute_head_def js_def)

lemma decode_e_acute_tail:
  "decode_stream \<lparr>utf8 = \<lparr>code_point = 3, bytes_seen = 0, bytes_needed = Suc 0,
                lower_boundary = 0x80, upper_boundary = 0xBF\<rparr>, bom_seen = True\<rparr> e_acute_tail =
     (\<lparr>utf8 = utf8_reset, bom_seen = True\<rparr>, 0xE9 # js ''\"}}'')"
  by (simp add: decode_eval e_acute_tail_def js_def)

lemma e_acute_head_lost:
  "claude_lines nts acc
     (split (js ''data: {\"type\":\"content_block_delta\",\"delta\":{\"text\":\"'') 0x0A) = acc"
proof -
  have "JSON_parse (js ''{\"type\":\"content_block_delta\",\"delta\":{\"text\":\"'') = None"
    by (simp add: json_eval)
  moreover have "slice_from 6 (js ''data: {\"type\":\"content_block_delta\",\"delta\":{\"text\":\"'') =
      js ''{\"type\":\"content_block_delta\",\"delta\":{\"text\":\"''"
    by (simp add: slice_from_def js_def)
  moreover have "split (js ''data: {\"type\":\"content_block_delta\",\"delta\":{\"text\":\"'') 0x0A =
      [js ''data: {\"type\":\"content_block_delta\",\"delta\":{\"text\":\"'']"
    by (simp add: split_def js_def)
  ultimately show ?thesis by (simp add: claude_line_def claude_try_def Let_def)
qed

lemma e_acute_tail_lost: "claude_lines nts acc (split (0xE9 # js ''\"}}'') 0x0A) = acc"
  by (simp add: split_def claude_line_def startsWith_def js_def)

definition e_acute_payload :: jsstring where
  "e_acute_payload =
     js ''{\"type\":\"content_block_delta\",\"delta\":{\"text\":\"'' @ [0xE9] @ js ''\"}}''"

lemma e_acute_payload_parse:
  "JSON_parse e_acute_payload =
     Some (JObject [(js ''type'', JString (js ''content_block_delta'')),
                    (js ''delta'', JObject [(js ''text'', JString [0xE9])])])"
  by (simp add: e_acute_payload_def json_eval)

lemma e_acute_text:
  "js ''data: {\"type\":\"content_block_delta\",\"delta\":{\"text\":\"'' @ 0xE9 # js ''\"}}'' =
   js ''data: '' @ e_acute_payload"
  by (simp add: e_acute_payload_def js_def)

lemma e_acute_split: "split (js ''data: '' @ e_acute_payload) 0x0A = [js ''data: '' @ e_acute_payload]"
  by (simp add: split_def e_acute_payload_def js_def)

lemma e_acute_whole:
  "claude_lines nts new_accumulator (split (js ''data: '' @ e_acute_payload) 0x0A) =
   \<lparr>fullText = [0xE9], onUpdate_calls = [[0xE9]]\<rparr>"
proof -
  have "e_acute_payload \<noteq> js ''[DONE]''" by (simp add: e_acute_payload_def js_def)
  then have "claude_line nts new_accumulator (js ''data: '' @ e_acute_payload) =
             append_delta new_accumulator [0xE9]"
    using claude_line_event [OF e_acute_payload_parse] by simp
  then show ?thesis
    by (simp add: e_acute_split append_delta_def new_accumulator_def)
qed

text \<open>
  Cut in two chunks, each body yields no text; in one chunk it yields its fragment.
\<close>

theorem C1_counterexample:
  "claude_read_loop (\<lambda>n. []) new_TextDecoder new_accumulator
     [ascii_bytes ''data: {\"type\":\"content_blo'', ascii_bytes ''ck_delta\",\"delta\":{\"text\":\"hi\"}}'']
     = \<lparr>fullText = [], onUpdate_calls = []\<rparr> \<and>
   claude_read_loop (\<lambda>n. []) new_TextDecoder new_accumulator
     [ascii_bytes ''data: {\"type\":\"content_blo'' @ ascii_bytes ''ck_delta\",\"delta\":{\"text\":\"hi\"}}'']
     = \<lparr>fullText = js ''hi'', onUpdate_calls = [js ''hi'']\<rparr> \<and>
   claude_read_loop (\<lambda>n. []) new_TextDecoder new_accumulator [e_acute_head, e_acute_tail]
     = \<lparr>fullText = [], onUpdate_calls = []\<rparr> \<and>
   claude_read_loop (\<lambda>n. []) new_TextDecoder new_accumulator [e_acute_head @ e_acute_tail]
     = \<lparr>fullText = [0xE9], onUpdate_calls = [[0xE9]]\<rparr>"
proof (intro conjI)
  show "claude_read_loop (\<lambda>n. []) new_TextDecoder new_accumulator
     [ascii_bytes ''data: {\"type\":\"content_blo'', ascii_bytes ''ck_delta\",\"delta\":{\"text\":\"hi\"}}'']
     = \<lparr>fullText = [], onUpdate_calls = []\<rparr>"
    by (simp add: decode_first_half decode_second_half split_no_newline_first
        split_no_newline_second first_half_lost second_half_lost new_accumulator_def)
  show "claude_read_loop (\<lambda>n. []) new_TextDecoder new_accumulator
     [ascii_bytes ''data: {\"type\":\"content_blo'' @ ascii_bytes ''ck_delta\",\"delta\":{\"text\":\"hi\"}}'']
     = \<lparr>fullText = js ''hi'', onUpdate_calls = [js ''hi'']\<rparr>"
    by (simp add: decode_stream_append decode_first_half decode_second_half halves_delta_line
        split_delta_line claude_line_delta_line append_delta_def new_accumulator_def)
  show "claude_read_loop (\<lambda>n. []) new_TextDecoder new_accumulator [e_acute_head, e_acute_tail]
     = \<lparr>fullText = [], onUpdate_calls = []\<rparr>"
    by (simp add: decode_e_acute_head decode_e_acute_tail e_acute_head_lost e_acute_tail_lost
        new_accumulator_def)
  show "claude_read_loop (\<lambda>n. []) new_TextDecoder new_accumulator [e_acute_head @ e_acute_tail]
     = \<lparr>fullText = [0xE9], onUpdate_calls = [[0xE9]]\<rparr>"
    by (simp add: decode_stream_append decode_e_acute_head decode_e_acute_tail)
       (simp only: e_acute_text e_acute_whole)
qed

text \<open>Two events, each a chunk that ends with a line feed.\<close>

definition delta_line_bytes :: "byte list" where
  "delta_line_bytes =
     ascii_bytes ''data: {\"type\":\"content_block_delta\",\"delta\":{\"text\":\"hi\"}}'' @ [0x0A]"

lemma decode_delta_line_bytes:
  "decode_stream new_TextDecoder delta_line_bytes =
     (\<lparr>utf8 = utf8_reset, bom_seen = True\<rparr>, delta_line @ [0x0A])"
  "decode_stream \<lparr>utf8 = utf8_reset, bom_seen = True\<rparr> delta_line_bytes =
     (\<lparr>utf8 = utf8_reset, bom_seen = True\<rparr>, delta_line @ [0x0A])"
  by (simp_all add: decode_eval delta_line_bytes_def delta_line_def js_def)

lemma split_delta_line_nl: "split (delta_line @ [0x0A]) 0x0A = [delta_line, []]"
  using split_sep [of delta_line "0x0A" "[]"] by (simp add: split_delta_line) (simp add: split_def)

theorem C1_witness:
  "claude_read_loop (\<lambda>n. []) new_TextDecoder new_accumulator [delta_line_bytes, delta_line_bytes] =
   claude_read_loop (\<lambda>n. []) new_TextDecoder new_accumulator [delta_line_bytes @ delta_line_bytes] \<and>
   claude_read_loop (\<lambda>n. []) new_TextDecoder new_accumulator [delta_line_bytes, delta_line_bytes] =
     \<lparr>fullText = js ''hi'' @ js ''hi'', onUpdate_calls = [js ''hi'', js ''hi'' @ js ''hi'']\<rparr>"
  using C1_line_aligned_chunks [of "[delta_line_bytes, delta_line_bytes]" "\<lambda>n. []"]
  by (simp add: delta_line_bytes_def)
     (simp add: delta_line_bytes_def [symmetric] decode_delta_line_bytes split_delta_line_nl
        claude_line_delta_line claude_line_empty append_delta_def new_accumulator_def)

section \<open>The accumulator on two streams\<close>

lemma claude_line_deltas_delta_line: "claude_line_deltas nts delta_line = [js ''hi'']"
proof -
  have "claude_line nts new_accumulator delta_line =
        append_deltas new_accumulator (claude_line_deltas nts delta_line)"
    by (rule claude_line_deltas)
  then have "append_deltas new_accumulator (claude_line_deltas nts delta_line) =
             append_delta new_accumulator (js ''hi'')"
    by (simp add: claude_line_delta_line)
  then have "onUpdate_calls (append_deltas new_accumulator (claude_line_deltas nts delta_line)) = [js ''hi'']"
    by (simp add: append_delta_def new_accumulator_def)
  then have "map (\<lambda>k. concat (take (Suc k) (claude_line_deltas nts delta_line)))
               [0..<length (claude_line_deltas nts delta_line)] = [js ''hi'']"
    by (simp add: calls_append_deltas new_accumulator_def)
  then show ?thesis
    by (cases "claude_line_deltas nts delta_line") (auto simp: upt_conv_Cons)
qed

lemma claude_line_deltas_empty: "claude_line_deltas nts [] = []"
  by (simp add: claude_line_deltas_def startsWith_def js_def)

lemma claude_deltas_two_events:
  "claude_deltas nts new_TextDecoder [delta_line_bytes, delta_line_bytes] = [js ''hi'', js ''hi'']"
  by (simp add: decode_delta_line_bytes split_delta_line_nl claude_line_deltas_delta_line
      claude_line_deltas_empty)

text \<open>A Gemini event with two parts, as a line and as a chunk.\<close>

definition parts_line :: jsstring where
  "parts_line =
     js ''data: {\"candidates\":[{\"content\":{\"parts\":[{\"text\":\"a\"},{\"text\":\"b\"}]}}]}''"

definition parts_line_bytes :: "byte list" where
  "parts_line_bytes =
     ascii_bytes ''data: {\"candidates\":[{\"content\":{\"parts\":[{\"text\":\"a\"},{\"text\":\"b\"}]}}]}''
       @ [0x0A]"

lemma decode_parts_line_bytes:
  "decode_stream new_TextDecoder parts_line_bytes =
     (\<lparr>utf8 = utf8_reset, bom_seen = True\<rparr>, parts_line @ [0x0A])"
  by (simp add: decode_eval parts_line_bytes_def parts_line_def js_def)

lemma split_parts_line: "split (parts_line @ [0x0A]) 0x0A = [parts_line, []]"
  by (simp add: split_def parts_line_def js_def)

lemma parts_line_parse:
  "JSON_parse (js ''{\"candidates\":[{\"content\":{\"parts\":[{\"text\":\"a\"},{\"text\":\"b\"}]}}]}'') =
     Some (JObject [(js ''candidates'',
       JArray [JObject [(js ''content'',
         JObject [(js ''parts'',
           JArray [JObject [(js ''text'', JString (js ''a''))],
                   JObject [(js ''text'', JString (js ''b''))]])])]])])"
  by (simp add: json_eval)

lemma gemini_line_deltas_parts_line: "gemini_line_deltas nts parts_line = [js ''a'', js ''b'']"
proof -
  have "trim (slice_from 6 parts_line) =
        js ''{\"candidates\":[{\"content\":{\"parts\":[{\"text\":\"a\"},{\"text\":\"b\"}]}}]}''"
    by (simp add: parts_line_def slice_from_def trim_def is_js_space_def js_def)
  moreover have "startsWith parts_line (js ''data: '')"
    by (simp add: parts_line_def startsWith_def js_def)
  ultimately show ?thesis
    by (simp add: gemini_line_deltas_def parts_line_parse gemini_event_deltas_def
        first_candidate_def own_property_def) (simp add: js_def)
qed

lemma gemini_line_deltas_empty: "gemini_line_deltas nts [] = []"
  by (simp add: gemini_line_deltas_def startsWith_def js_def)

lemma gemini_deltas_parts:
  "gemini_deltas nts new_TextDecoder [parts_line_bytes] = [js ''a'', js ''b'']"
  by (simp add: decode_parts_line_bytes split_parts_line gemini_line_deltas_parts_line
      gemini_line_deltas_empty)

text \<open>
  Two Anthropic events give two calls, and one Gemini event with two parts gives two
  calls; each time the second argument extends the first.
\<close>

theorem C2_witness:
  "fullText (claude_read_loop (\<lambda>n. []) new_TextDecoder new_accumulator
      [delta_line_bytes, delta_line_bytes]) = js ''hihi'' \<and>
   onUpdate_calls (claude_read_loop (\<lambda>n. []) new_TextDecoder new_accumulator
      [delta_line_bytes, delta_line_bytes]) = [js ''hi'', js ''hihi''] \<and>
   fullText (gemini_read_loop (\<lambda>n. []) new_TextDecoder new_accumulator [parts_line_bytes]) = js ''ab'' \<and>
   onUpdate_calls (gemini_read_loop (\<lambda>n. []) new_TextDecoder new_accumulator [parts_line_bytes]) =
     [js ''a'', js ''ab'']"
proof -
  have "accumulated (claude_read_loop (\<lambda>n. []) new_TextDecoder new_accumulator
          [delta_line_bytes, delta_line_bytes]) [js ''hi'', js ''hi'']"
    using C2_accumulator [of "\<lambda>n. []" "[delta_line_bytes, delta_line_bytes]"]
    by (simp only: claude_deltas_two_events)
  moreover have "accumulated (gemini_read_loop (\<lambda>n. []) new_TextDecoder new_accumulator
          [parts_line_bytes]) [js ''a'', js ''b'']"
    using C2_accumulator [of "\<lambda>n. []" "[parts_line_bytes]"]
    by (simp only: gemini_deltas_parts)
  ultimately show ?thesis
    by (simp add: accumulated_def upt_conv_Cons js_def)
qed

section \<open>The defaults of \<^verbatim>\<open>parseCategories\<close>\<close>

text \<open>
  The property \<open>name\<close> of an element of the parsed array that is not \<^verbatim>\<open>null\<close>:
  an object has its own properties, any other value has none. \<open>field_or\<close> is the
  property when it is there and truthy, and the default string when it is missing or
  falsy (\<^verbatim>\<open>null\<close>, \<^verbatim>\<open>false\<close>, zero, the empty string).
\<close>

definition field :: "json \<Rightarrow> jsstring \<Rightarrow> json option" where
  "field e name = (case e of JObject kvs \<Rightarrow> own_property kvs name | _ \<Rightarrow> None)"

definition field_or :: "json \<Rightarrow> jsstring \<Rightarrow> jsstring \<Rightarrow> json" where
  "field_or e name d =
     (case field e name of None \<Rightarrow> JString d | Some v \<Rightarrow> if truthy v then v else JString d)"

text \<open>The record of an element: four fields with defaults, and the index as it is.\<close>

definition defaulted :: "json \<Rightarrow> category_record" where
  "defaulted e =
     \<lparr>category = field_or e (js ''category'') (js ''Uncategorized''),
      confidence = field_or e (js ''confidence'') (js ''low''),
      reasoning = field_or e (js ''reasoning'') (js ''No reasoning provided''),
      icon = field_or e (js ''icon'') [0x2753],
      index = field e (js ''index'')\<rparr>"

lemma make_category_defaulted: "e \<noteq> JNull \<Longrightarrow> make_category e = Inr (defaulted e)"
  by (cases e)
     (simp_all add: make_category_def defaulted_def field_or_def field_def get_prop_def js_or_def
        split: option.splits)

lemma make_category_null: "make_category JNull = Inl TypeError"
  by (simp add: make_category_def get_prop_def)

lemma make_categories_defaulted:
  "JNull \<notin> set elems \<Longrightarrow> make_categories elems = Inr (map defaulted elems)"
  by (induction elems) (auto simp: make_category_defaulted)

lemma make_categories_null: "JNull \<in> set elems \<Longrightarrow> \<exists>e. make_categories elems = Inl e"
proof (induction elems)
  case Nil
  then show ?case by simp
next
  case (Cons x xs)
  then show ?case
    by (cases "x = JNull") (auto simp: make_category_null make_category_defaulted split: sum.splits)
qed

text \<open>The input of the example.\<close>

definition auth_example :: jsstring where
  "auth_example = js ''[{\"index\":0,\"category\":\"Auth\"}]''"

lemma jsonText_of_example:
  "jsonText_of (js ''[{\"index\":0,\"category\":\"Auth\"}]'') = js ''[{\"index\":0,\"category\":\"Auth\"}]''"
  by (simp add: fence_eval js_def startsWith_def)

lemma JSON_parse_example:
  "JSON_parse (js ''[{\"index\":0,\"category\":\"Auth\"}]'') =
     Some (JArray [JObject [(js ''index'', JNumber (JsNum False 0 0)),
                            (js ''category'', JString (js ''Auth''))]])"
  by (simp add: json_eval)

lemma defaulted_example:
  "defaulted (JObject [(js ''index'', JNumber (JsNum False 0 0)), (js ''category'', JString (js ''Auth''))]) =
     \<lparr>category = JString (js ''Auth''), confidence = JString (js ''low''),
      reasoning = JString (js ''No reasoning provided''), icon = JString [0x2753],
      index = Some (JNumber (JsNum False 0 0))\<rparr>"
  by (simp add: defaulted_def field_or_def field_def own_property_def js_def)

lemma parseCategories_auth_example:
  "parseCategories auth_example =
     [\<lparr>category = JString (js ''Auth''), confidence = JString (js ''low''),
       reasoning = JString (js ''No reasoning provided''), icon = JString [0x2753],
       index = Some (JNumber (JsNum False 0 0))\<rparr>]"
  by (simp add: auth_example_def parseCategories_def parseCategories_try_def jsonText_of_example
      JSON_parse_example make_category_defaulted defaulted_example)

text \<open>
  Claim C5, as the code has it. The input of the example yields the one record of the
  claim. In general, when the text parses to an array without \<^verbatim>\<open>null\<close> elements,
  the result has one record per element, in order: each of \<^verbatim>\<open>category\<close>,
  \<^verbatim>\<open>confidence\<close>, \<^verbatim>\<open>reasoning\<close> and \<^verbatim>\<open>icon\<close> is the element's property when
  that is truthy and the default when it is missing or falsy, and \<^verbatim>\<open>index\<close> is the
  element's property as it is, \<^verbatim>\<open>undefined\<close> when missing. A \<^verbatim>\<open>null\<close> element
  makes the result empty.
\<close>

theorem C5_defaults:
  "parseCategories (js ''[{\"index\":0,\"category\":\"Auth\"}]'') =
     [\<lparr>category = JString (js ''Auth''), confidence = JString (js ''low''),
       reasoning = JString (js ''No reasoning provided''), icon = JString [0x2753],
       index = Some (JNumber (JsNum False 0 0))\<rparr>]
   \<and> (JSON_parse (jsonText_of response) = Some (JArray elems) \<and> JNull \<notin> set elems
        \<longrightarrow> parseCategories response = map defaulted elems)
   \<and> (JSON_parse (jsonText_of response) = Some (JArray elems) \<and> JNull \<in> set elems
        \<longrightarrow> parseCategories response = [])"
proof (intro conjI impI)
  show "parseCategories (js ''[{\"index\":0,\"category\":\"Auth\"}]'') =
     [\<lparr>category = JString (js ''Auth''), confidence = JString (js ''low''),
       reasoning = JString (js ''No reasoning provided''), icon = JString [0x2753],
       index = Some (JNumber (JsNum False 0 0))\<rparr>]"
    using parseCategories_auth_example by (simp only: auth_example_def)
next
  assume "JSON_parse (jsonText_of response) = Some (JArray elems) \<and> JNull \<notin> set elems"
  then show "parseCategories response = map defaulted elems"
    by (simp add: parseCategories_def parseCategories_try_def make_categories_defaulted)
next
  assume a: "JSON_parse (jsonText_of response) = Some (JArray elems) \<and> JNull \<in> set elems"
  then obtain e where "make_categories elems = Inl e" using make_categories_null by blast
  with a show "parseCategories response = []"
    by (simp add: parseCategories_def parseCategories_try_def)
qed

text \<open>
  An array whose first element has an index and four falsy fields, and whose second
  element is a number.
\<close>

definition falsy_fields :: jsstring where
  "falsy_fields =
     js ''[{\"index\":1,\"category\":\"\",\"confidence\":0,\"reasoning\":null,\"icon\":false},7]''"

lemma jsonText_of_falsy_fields: "jsonText_of falsy_fields = falsy_fields"
  by (simp add: fence_eval falsy_fields_def js_def startsWith_def)

lemma JSON_parse_falsy_fields:
  "JSON_parse falsy_fields =
     Some (JArray [JObject [(js ''index'', JNumber (JsNum False 1 0)),
                            (js ''category'', JString []),
                            (js ''confidence'', JNumber (JsNum False 0 0)),
                            (js ''reasoning'', JNull),
                            (js ''icon'', JBool False)],
                   JNumber (JsNum False 7 0)])"
  by (simp add: falsy_fields_def json_eval)

text \<open>Every falsy field is replaced by its default; the number has no index.\<close>

theorem C5_witness:
  "parseCategories falsy_fields =
     [\<lparr>category = JString (js ''Uncategorized''), confidence = JString (js ''low''),
       reasoning = JString (js ''No reasoning provided''), icon = JString [0x2753],
       index = Some (JNumber (JsNum False 1 0))\<rparr>,
      \<lparr>category = JString (js ''Uncategorized''), confidence = JString (js ''low''),
       reasoning = JString (js ''No reasoning provided''), icon = JString [0x2753],
       index = None\<rparr>]"
proof -
  let ?elems = "[JObject [(js ''index'', JNumber (JsNum False 1 0)),
                            (js ''category'', JString []),
                            (js ''confidence'', JNumber (JsNum False 0 0)),
                            (js ''reasoning'', JNull),
                            (js ''icon'', JBool False)],
                   JNumber (JsNum False 7 0)]"
  have "parseCategories falsy_fields = map defaulted ?elems"
    using C5_defaults [where response = falsy_fields and elems = ?elems]
    by (simp add: jsonText_of_falsy_fields JSON_parse_falsy_fields)
  then show ?thesis
    by (simp add: defaulted_def field_or_def field_def own_property_def num_is_zero_def js_def)
qed

lemma jsonText_of_empty_category:
  "jsonText_of (js ''[{\"index\":0,\"category\":\"\"}]'') = js ''[{\"index\":0,\"category\":\"\"}]''"
  by (simp add: fence_eval js_def startsWith_def)

lemma JSON_parse_empty_category:
  "JSON_parse (js ''[{\"index\":0,\"category\":\"\"}]'') =
     Some (JArray [JObject [(js ''index'', JNumber (JsNum False 0 0)), (js ''category'', JString [])]])"
  by (simp add: json_eval)

text \<open>
  A category that is present and is the empty string is not passed through.
\<close>

theorem C5_counterexample:
  "map category (parseCategories (js ''[{\"index\":0,\"category\":\"\"}]'')) =
     [JString (js ''Uncategorized'')] \<and>
   map category (parseCategories (js ''[{\"index\":0,\"category\":\"\"}]'')) \<noteq> [JString []]"
proof -
  have "parseCategories (js ''[{\"index\":0,\"category\":\"\"}]'') =
        [defaulted (JObject [(js ''index'', JNumber (JsNum False 0 0)), (js ''category'', JString [])])]"
    by (simp add: parseCategories_def parseCategories_try_def jsonText_of_empty_category
        JSON_parse_empty_category make_category_defaulted)
  then show ?thesis
    by (simp add: defaulted_def field_or_def field_def own_property_def js_def)
qed

section \<open>The code fence\<close>

text \<open>
  Whether a text contains three backticks in a row, and a text wrapped in a code fence:
  the opening fence with or without the tag \<^verbatim>\<open>json\<close>, a line feed, the text, a line
  feed, the closing fence.
\<close>

fun has_fence :: "jsstring \<Rightarrow> bool" where
  "has_fence [] = False"
| "has_fence (c # cs) = (startsWith (c # cs) fence \<or> has_fence cs)"

definition fenced :: "bool \<Rightarrow> jsstring \<Rightarrow> jsstring" where
  "fenced tagged t = fence @ (if tagged then js ''json'' else []) @ [0x0A] @ t @ [0x0A] @ fence"

lemma startsWith_iff: "startsWith s p \<longleftrightarrow> (\<exists>b. s = p @ b)"
  unfolding startsWith_def
  by (metis append_eq_conv_conj append_take_drop_id)

lemma has_fence_iff: "has_fence s \<longleftrightarrow> (\<exists>a b. s = a @ fence @ b)"
proof (induction s)
  case Nil
  show ?case by (simp add: fence_def)
next
  case (Cons c cs)
  show ?case
  proof
    assume "has_fence (c # cs)"
    then consider "startsWith (c # cs) fence" | "has_fence cs" by auto
    then show "\<exists>a b. c # cs = a @ fence @ b"
    proof cases
      case 1
      then obtain b where "c # cs = fence @ b" using startsWith_iff by blast
      then have "c # cs = [] @ fence @ b" by simp
      then show ?thesis by blast
    next
      case 2
      then obtain a b where "cs = a @ fence @ b" using Cons.IH by blast
      then have "c # cs = (c # a) @ fence @ b" by simp
      then show ?thesis by blast
    qed
  next
    assume "\<exists>a b. c # cs = a @ fence @ b"
    then obtain a b where ab: "c # cs = a @ fence @ b" by blast
    show "has_fence (c # cs)"
    proof (cases a)
      case Nil
      with ab have "startsWith (c # cs) fence" using startsWith_iff by auto
      then show ?thesis by simp
    next
      case (Cons a0 as)
      with ab have "cs = as @ fence @ b" by simp
      then have "has_fence cs" using Cons.IH by blast
      then show ?thesis by simp
    qed
  qed
qed

lemma has_fence_part: "\<not> has_fence (l @ x @ r) \<Longrightarrow> \<not> has_fence x"
proof (rule notI)
  assume n: "\<not> has_fence (l @ x @ r)" and "has_fence x"
  then obtain a b where "x = a @ fence @ b" using has_fence_iff by blast
  then have "l @ x @ r = (l @ a) @ fence @ (b @ r)" by simp
  then have "has_fence (l @ x @ r)" using has_fence_iff by blast
  with n show False by simp
qed

lemma backtick_not_space: "\<not> is_js_space 0x60"
  by (simp add: is_js_space_def)

lemma startsWith_Nil_fence: "\<not> startsWith [] fence"
  by (simp add: startsWith_def fence_def)

lemma fence_match_none: "\<not> has_fence s \<Longrightarrow> fence_match s = None"
  by (induction s) (simp_all add: match_at_def startsWith_Nil_fence)

lemma trim_parts:
  obtains l r where "s = l @ trim s @ r"
    and "\<forall>c \<in> set l. is_js_space c" and "\<forall>c \<in> set r. is_js_space c"
    and "trim s = [] \<or> (\<not> is_js_space (hd (trim s)) \<and> \<not> is_js_space (last (trim s)))"
proof -
  define m where "m = dropWhile is_js_space s"
  define l where "l = takeWhile is_js_space s"
  define r where "r = rev (takeWhile is_js_space (rev m))"
  have t: "trim s = rev (dropWhile is_js_space (rev m))" by (simp add: trim_def m_def)
  have s: "s = l @ m" by (simp add: l_def m_def)
  have "m = rev (dropWhile is_js_space (rev m)) @ rev (takeWhile is_js_space (rev m))"
    by (metis rev_append rev_rev_ident takeWhile_dropWhile_id)
  then have m: "m = trim s @ r" by (simp only: t r_def)
  have l: "\<forall>c \<in> set l. is_js_space c" unfolding l_def by (meson set_takeWhileD)
  have r: "\<forall>c \<in> set r. is_js_space c" unfolding r_def by (auto dest: set_takeWhileD)
  have e: "trim s = [] \<or> (\<not> is_js_space (hd (trim s)) \<and> \<not> is_js_space (last (trim s)))"
  proof (cases "trim s = []")
    case True
    then show ?thesis by simp
  next
    case False
    then have d: "dropWhile is_js_space (rev m) \<noteq> []" by (simp add: t)
    then have "\<not> is_js_space (hd (dropWhile is_js_space (rev m)))" by (rule hd_dropWhile)
    then have la: "\<not> is_js_space (last (trim s))" using d by (simp add: t last_rev)
    have "m \<noteq> []" using False m by auto
    then have "\<not> is_js_space (hd m)" unfolding m_def by (rule hd_dropWhile)
    moreover have "hd m = hd (trim s)" using False m by (metis hd_append2)
    ultimately show ?thesis using la by simp
  qed
  from s m l r e show ?thesis using that [of l r] by simp
qed

lemma trim_id: "s \<noteq> [] \<Longrightarrow> \<not> is_js_space (hd s) \<Longrightarrow> \<not> is_js_space (last s) \<Longrightarrow> trim s = s"
proof -
  assume a: "s \<noteq> []" "\<not> is_js_space (hd s)" "\<not> is_js_space (last s)"
  then have "dropWhile is_js_space s = s" by (cases s) simp_all
  moreover have "dropWhile is_js_space (rev s) = rev s"
    using a by (cases "rev s") (simp_all add: last_rev [symmetric] hd_rev)
  ultimately show ?thesis by (simp add: trim_def)
qed

lemma match_close_iff: "match_close s \<longleftrightarrow> startsWith (dropWhile is_js_space s) fence"
proof (induction s)
  case Nil
  show ?case by (simp add: startsWith_def fence_def)
next
  case (Cons c cs)
  show ?case
  proof (cases "is_js_space c")
    case True
    then have "c \<noteq> 0x60" using backtick_not_space by auto
    then have "\<not> startsWith (c # cs) fence" by (simp add: startsWith_def fence_def)
    with True Cons.IH show ?thesis by simp
  next
    case False
    then show ?thesis by simp
  qed
qed

lemma match_group_first:
  assumes "match_close s" and "s \<noteq> []"
    and "\<forall>x2. x2 \<noteq> [] \<and> suffix x2 x \<longrightarrow> \<not> match_close (x2 @ s)"
  shows "match_group acc (x @ s) = Some (rev acc @ x)"
  using assms(3)
proof (induction x arbitrary: acc)
  case Nil
  from assms(1,2) show ?case by (cases s) simp_all
next
  case (Cons a x)
  have "suffix (a # x) (a # x)" by simp
  then have n: "\<not> match_close (a # x @ s)" using Cons.prems by fastforce
  have "\<forall>x2. x2 \<noteq> [] \<and> suffix x2 x \<longrightarrow> \<not> match_close (x2 @ s)"
    using Cons.prems by (simp add: suffix_Cons)
  then have "match_group (a # acc) (x @ s) = Some (rev (a # acc) @ x)" by (rule Cons.IH)
  then show ?case using n by (simp del: match_close.simps)
qed

lemma match_space_greedy:
  "match_group [] (dropWhile is_js_space s) = Some g \<Longrightarrow> match_space s = Some g"
proof (induction s)
  case Nil
  then show ?case by simp
next
  case (Cons a s)
  show ?case
  proof (cases "is_js_space a")
    case True
    with Cons.prems have "match_group [] (dropWhile is_js_space s) = Some g" by simp
    then have "match_space s = Some g" by (rule Cons.IH)
    with True show ?thesis by simp
  next
    case False
    with Cons.prems have "match_group [] (a # s) = Some g" by simp
    with False show ?thesis by (simp del: match_group.simps)
  qed
qed


lemma has_fence_startsWith: "startsWith y fence \<Longrightarrow> has_fence y"
  by (cases y) (simp_all add: startsWith_Nil_fence)

lemma no_early_close:
  assumes nf: "\<not> has_fence x"
    and nx: "x = [] \<or> \<not> is_js_space (last x)"
    and sp: "sp \<noteq> []" "\<forall>c \<in> set sp. is_js_space c"
  shows "\<forall>x2. x2 \<noteq> [] \<and> suffix x2 x \<longrightarrow> \<not> match_close (x2 @ sp @ fence)"
proof (intro allI impI notI)
  fix x2 assume a: "x2 \<noteq> [] \<and> suffix x2 x" and mc: "match_close (x2 @ sp @ fence)"
  from a obtain l where x: "x = l @ x2" by (auto simp: suffix_def)
  with a nx have last: "\<not> is_js_space (last x2)" by auto
  define y where "y = dropWhile is_js_space x2"
  have mem: "last x2 \<in> set x2" using a by simp
  have dw: "dropWhile is_js_space (x2 @ sp @ fence) = y @ sp @ fence"
    unfolding y_def using mem last by (rule dropWhile_append1)
  have yne: "y \<noteq> []" unfolding y_def using a last
    by (metis dropWhile_eq_Nil_conv last_in_set)
  have "x2 = takeWhile is_js_space x2 @ y" by (simp add: y_def)
  then have "x = (l @ takeWhile is_js_space x2) @ y @ []" using x by simp
  then have nfy: "\<not> has_fence y" using nf has_fence_part by metis
  have len: "length fence = 3" by (simp add: fence_def)
  from mc have "startsWith (y @ sp @ fence) fence"
    by (simp only: match_close_iff dw)
  then have sw: "take 3 (y @ sp @ fence) = fence"
    by (simp only: startsWith_def len)
  show False
  proof (cases "3 \<le> length y")
    case True
    with sw have "startsWith y fence" by (simp add: startsWith_def len)
    then show False using nfy has_fence_startsWith by blast
  next
    case False
    then have k: "length y < 3" by simp
    have "take 3 (y @ sp @ fence) ! length y = (y @ sp @ fence) ! length y"
      using k by (rule nth_take)
    also have "\<dots> = hd sp" using sp(1) by (cases sp) (simp_all add: nth_append)
    finally have "fence ! length y = hd sp" using sw by simp
    moreover have "fence ! length y = 0x60"
      using k by (cases y; cases "tl y"; cases "tl (tl y)") (auto simp: fence_def)
    moreover have "is_js_space (hd sp)" using sp by simp
    ultimately show False using backtick_not_space by simp
  qed
qed

lemma match_close_spaces_fence:
  "\<forall>c \<in> set sp. is_js_space c \<Longrightarrow> match_close (sp @ fence)"
proof -
  assume a: "\<forall>c \<in> set sp. is_js_space c"
  have "dropWhile is_js_space fence = fence" by (simp add: fence_def backtick_not_space)
  then have "dropWhile is_js_space (sp @ fence) = fence" using a by (simp add: dropWhile_append2)
  then show ?thesis by (simp add: match_close_iff startsWith_def)
qed

lemma match_space_body:
  assumes "\<not> has_fence t"
  shows "match_space ([0x0A] @ t @ [0x0A] @ fence) = Some (trim t)"
proof -
  obtain l r where t: "t = l @ trim t @ r"
    and l: "\<forall>c \<in> set l. is_js_space c" and r: "\<forall>c \<in> set r. is_js_space c"
    and e: "trim t = [] \<or> (\<not> is_js_space (hd (trim t)) \<and> \<not> is_js_space (last (trim t)))"
    by (rule trim_parts)
  define x where "x = trim t"
  define sp where "sp = r @ [0x0A]"
  have nl: "is_js_space 0x0A" by (simp add: is_js_space_def)
  have sp: "sp \<noteq> []" "\<forall>c \<in> set sp. is_js_space c" using r nl by (simp_all add: sp_def)
  have l': "\<forall>c \<in> set (0x0A # l). is_js_space c" using l nl by simp
  have body: "[0x0A] @ t @ [0x0A] @ fence = (0x0A # l) @ x @ sp @ fence"
    using t by (simp add: x_def sp_def)
  have nfx: "\<not> has_fence x" using assms t has_fence_part unfolding x_def by metis
  have mc: "match_close (sp @ fence)" using sp(2) by (rule match_close_spaces_fence)
  have ne: "sp @ fence \<noteq> []" using sp(1) by simp
  have "match_group [] (dropWhile is_js_space ((0x0A # l) @ x @ sp @ fence)) = Some x"
  proof (cases "x = []")
    case True
    have "dropWhile is_js_space ((0x0A # l) @ x @ sp @ fence) = dropWhile is_js_space (x @ sp @ fence)"
      by (rule dropWhile_append2) (use l' in blast)
    also have "\<dots> = dropWhile is_js_space fence" using True sp(2) by (simp add: dropWhile_append2)
    also have "\<dots> = fence" by (simp add: fence_def backtick_not_space)
    finally have "dropWhile is_js_space ((0x0A # l) @ x @ sp @ fence) = fence" .
    moreover have "match_group [] fence = Some []"
      using match_close_spaces_fence [of "[]"] by (simp add: fence_def del: match_close.simps)
    ultimately show ?thesis using True by simp
  next
    case False
    with e have hx: "\<not> is_js_space (hd x)" and lx: "\<not> is_js_space (last x)" by (simp_all add: x_def)
    have "dropWhile is_js_space ((0x0A # l) @ x @ sp @ fence) = dropWhile is_js_space (x @ sp @ fence)"
      by (rule dropWhile_append2) (use l' in blast)
    also have "\<dots> = x @ sp @ fence" using False hx by (cases x) simp_all
    finally have d: "dropWhile is_js_space ((0x0A # l) @ x @ sp @ fence) = x @ sp @ fence" .
    have "\<forall>x2. x2 \<noteq> [] \<and> suffix x2 x \<longrightarrow> \<not> match_close (x2 @ sp @ fence)"
      using nfx lx sp by (intro no_early_close) simp_all
    then have "match_group [] (x @ sp @ fence) = Some (rev [] @ x)"
      using mc ne by (intro match_group_first) simp_all
    then show ?thesis using d by simp
  qed
  then have "match_space ((0x0A # l) @ x @ sp @ fence) = Some x" by (rule match_space_greedy)
  then have "match_space ([0x0A] @ t @ [0x0A] @ fence) = Some x" by (simp only: body)
  then show ?thesis by (simp only: x_def)
qed

lemma jsonText_of_fenced:
  assumes "\<not> has_fence t"
  shows "jsonText_of (fenced tagged t) = trim t"
proof -
  have ms: "match_space ([0x0A] @ t @ [0x0A] @ fence) = Some (trim t)"
    using assms by (rule match_space_body)
  have tag: "match_tag ((if tagged then js ''json'' else []) @ [0x0A] @ t @ [0x0A] @ fence) = Some (trim t)"
  proof (cases tagged)
    case True
    have "startsWith (js ''json'' @ [0x0A] @ t @ [0x0A] @ fence) (js ''json'')"
      by (simp add: startsWith_def js_def)
    moreover have "drop 4 (js ''json'' @ [0x0A] @ t @ [0x0A] @ fence) = [0x0A] @ t @ [0x0A] @ fence"
      by (simp add: js_def)
    ultimately show ?thesis using True ms by (simp add: match_tag_def)
  next
    case False
    have "\<not> startsWith ([0x0A] @ t @ [0x0A] @ fence) (js ''json'')"
      by (simp add: startsWith_def js_def)
    then show ?thesis using False ms by (simp add: match_tag_def)
  qed
  have d3: "drop 3 (fenced tagged t) = (if tagged then js ''json'' else []) @ [0x0A] @ t @ [0x0A] @ fence"
    by (simp add: fenced_def fence_def)
  have sw: "startsWith (fenced tagged t) fence"
    by (simp add: fenced_def fence_def startsWith_def)
  have at: "match_at (fenced tagged t) = Some (trim t)"
    using sw tag by (simp add: match_at_def d3)
  have ne: "fenced tagged t \<noteq> []" by (simp add: fenced_def fence_def)
  have fm: "fence_match (fenced tagged t) = Some (trim t)"
    using at ne by (cases "fenced tagged t") simp_all
  have hd: "hd (fenced tagged t) = 0x60" by (simp add: fenced_def fence_def)
  have la: "last (fenced tagged t) = 0x60" by (simp add: fenced_def fence_def)
  have "trim (fenced tagged t) = fenced tagged t"
    using ne hd la backtick_not_space by (intro trim_id) simp_all
  then show ?thesis using fm by (simp add: jsonText_of_def)
qed

lemma jsonText_of_plain:
  assumes "\<not> has_fence t"
  shows "jsonText_of t = trim t"
proof -
  obtain l r where t: "t = l @ trim t @ r" by (rule trim_parts)
  then have "\<not> has_fence (trim t)" using assms has_fence_part by metis
  then have "fence_match (trim t) = None" by (rule fence_match_none)
  then show ?thesis by (simp add: jsonText_of_def)
qed

text \<open>
  Claim C6, as the code has it. For every text that contains no three backticks in a
  row, \<^verbatim>\<open>parseCategories\<close> gives the same result for the text wrapped in a code
  fence, tagged or not, as for the text itself: both parse the trimmed text.
\<close>

theorem C6_fenced:
  assumes "\<not> has_fence t"
  shows "parseCategories (fenced tagged t) = parseCategories t"
  using jsonText_of_fenced [OF assms, of tagged] jsonText_of_plain [OF assms]
  by (simp add: parseCategories_def parseCategories_try_def)


lemma has_fence_auth_example: "\<not> has_fence auth_example"
  by (simp add: auth_example_def js_def startsWith_def fence_def)

text \<open>A JSON array whose one element is a string of three backticks.\<close>

definition fence_in_string :: jsstring where
  "fence_in_string = js ''[\"'' @ fence @ js ''\"]''"

lemma jsonText_of_fence_in_string: "jsonText_of fence_in_string = fence_in_string"
  by (simp add: fence_in_string_def fence_eval js_def startsWith_def)

lemma JSON_parse_fence_in_string: "JSON_parse fence_in_string = Some (JArray [JString fence])"
  by (simp add: fence_in_string_def fence_def json_eval)

lemma jsonText_of_fenced_fence_in_string:
  "jsonText_of (fenced True fence_in_string) = js ''[\"''"
  by (simp add: fenced_def fence_in_string_def fence_eval js_def startsWith_def)

lemma JSON_parse_cut: "JSON_parse (js ''[\"'') = None"
  by (simp add: json_eval)

text \<open>
  Wrapped in a fence, the group of the pattern ends at the backticks inside the string,
  the cut text is not JSON and the result is empty; unwrapped, the array gives a record.
\<close>

theorem C6_counterexample:
  "parseCategories (fenced True fence_in_string) = [] \<and>
   parseCategories fence_in_string =
     [\<lparr>category = JString (js ''Uncategorized''), confidence = JString (js ''low''),
       reasoning = JString (js ''No reasoning provided''), icon = JString [0x2753],
       index = None\<rparr>]"
proof
  show "parseCategories (fenced True fence_in_string) = []"
    by (simp add: parseCategories_def parseCategories_try_def jsonText_of_fenced_fence_in_string
        JSON_parse_cut)
  show "parseCategories fence_in_string =
     [\<lparr>category = JString (js ''Uncategorized''), confidence = JString (js ''low''),
       reasoning = JString (js ''No reasoning provided''), icon = JString [0x2753],
       index = None\<rparr>]"
    by (simp add: parseCategories_def parseCategories_try_def jsonText_of_fence_in_string
        JSON_parse_fence_in_string make_category_def get_prop_def js_or_def)
qed

text \<open>The example of claim C5 in a fence, with and without the tag.\<close>

theorem C6_witness:
  "parseCategories (fenced True auth_example) =
     [\<lparr>category = JString (js ''Auth''), confidence = JString (js ''low''),
       reasoning = JString (js ''No reasoning provided''), icon = JString [0x2753],
       index = Some (JNumber (JsNum False 0 0))\<rparr>] \<and>
   parseCategories (fenced False auth_example) =
     [\<lparr>category = JString (js ''Auth''), confidence = JString (js ''low''),
       reasoning = JString (js ''No reasoning provided''), icon = JString [0x2753],
       index = Some (JNumber (JsNum False 0 0))\<rparr>]"
  using C6_fenced [OF has_fence_auth_example, of True]
    C6_fenced [OF has_fence_auth_example, of False]
  by (simp add: parseCategories_auth_example)

section \<open>The map of categories\<close>

text \<open>
  The streaming call that \<^verbatim>\<open>analyzeAttackSurface\<close> makes, and the last record of
  a list whose index has the key \<open>k\<close>.
\<close>

definition analysis_call ::
  "platform \<Rightarrow> storage \<Rightarrow> network \<Rightarrow> request_entry list \<Rightarrow> http_request \<times> (js_error + accumulator)" where
  "analysis_call p st net requests =
     streamExplanationWithSystem (Number_toString p) net (apiKey (getAISettings st))
       (model (getAISettings st)) analysis_system_prompt
       (buildAnalysisPrompt p (take 50 requests)) (provider (getAISettings st))"

definition last_with_key ::
  "(jsnum \<Rightarrow> jsstring) \<Rightarrow> category_record list \<Rightarrow> jsstring \<Rightarrow> category_record option" where
  "last_with_key nts cats k = find (\<lambda>c. property_key nts (index c) = Inr k) (rev cats)"

lemma find_append_first:
  "find P (xs @ ys) = (case find P xs of Some x \<Rightarrow> Some x | None \<Rightarrow> find P ys)"
  by (induction xs) simp_all

lemma fill_map_lookup:
  "fill_map nts m0 cats = Inr m \<Longrightarrow> k \<noteq> js ''__proto__'' \<Longrightarrow>
     m k = (case last_with_key nts cats k of None \<Rightarrow> m0 k | Some c \<Rightarrow> Some (fields_of c))"
proof (induction cats arbitrary: m0)
  case Nil
  then show ?case by (simp add: last_with_key_def)
next
  case (Cons c cs)
  from Cons.prems(1) obtain key where key: "property_key nts (index c) = Inr key"
    and rest: "fill_map nts (assign m0 key (fields_of c)) cs = Inr m"
    by (auto split: sum.splits)
  have "m k = (case last_with_key nts cs k of
                 None \<Rightarrow> assign m0 key (fields_of c) k
               | Some c' \<Rightarrow> Some (fields_of c'))"
    using rest Cons.prems(2) by (rule Cons.IH)
  moreover have "assign m0 key (fields_of c) k = (if key = k then Some (fields_of c) else m0 k)"
    using Cons.prems(2) by (auto simp: assign_def)
  moreover have "last_with_key nts (c # cs) k =
      (case last_with_key nts cs k of
         Some c' \<Rightarrow> Some c'
       | None \<Rightarrow> if key = k then Some c else None)"
    by (auto simp: last_with_key_def find_append_first key split: option.splits)
  ultimately show ?case using Cons.prems(2) by (auto simp: assign_def split: option.splits)
qed

lemma fill_map_total:
  "\<forall>c \<in> set cats. \<exists>s. property_key nts (index c) = Inr s \<Longrightarrow> \<exists>m. fill_map nts m0 cats = Inr m"
  by (induction cats arbitrary: m0) auto

text \<open>
  Claim C10. When a key is configured, the streaming call returns, and the index of
  every parsed record has a string, \<^verbatim>\<open>analyzeAttackSurface\<close> returns a map in which
  every key other than \<^verbatim>\<open>__proto__\<close> holds the four fields \<^verbatim>\<open>category\<close>,
  \<^verbatim>\<open>confidence\<close>, \<^verbatim>\<open>reasoning\<close> and \<^verbatim>\<open>icon\<close> of the last parsed record whose
  index has that key, and nothing when there is no such record. The values of the map
  have no field for the index. Records with the same index have the same key, so the
  last of them is the one the map holds.
\<close>

theorem C10_category_map:
  assumes key: "apiKey (getAISettings st) \<noteq> []"
    and call: "snd (analysis_call p st net requests) = Inr acc"
    and keys: "\<forall>c \<in> set (parseCategories (fullResponse_of acc)).
                 \<exists>s. property_key (Number_toString p) (index c) = Inr s"
  shows "\<exists>m. snd (analyzeAttackSurface p st net requests onProgress) = Inr m \<and>
           (\<forall>k. k \<noteq> js ''__proto__'' \<longrightarrow>
              m k = (case last_with_key (Number_toString p) (parseCategories (fullResponse_of acc)) k of
                       None \<Rightarrow> None
                     | Some c \<Rightarrow> Some \<lparr>category = category c, confidence = confidence c,
                                       reasoning = reasoning c, icon = icon c\<rparr>))"
proof -
  let ?cats = "parseCategories (fullResponse_of acc)"
  obtain m where m: "fill_map (Number_toString p) Map.empty ?cats = Inr m"
    using fill_map_total [OF keys] by blast
  obtain req where r: "analysis_call p st net requests = (req, Inr acc)"
    using call by (cases "analysis_call p st net requests") simp
  have res: "snd (analyzeAttackSurface p st net requests onProgress) = Inr m"
    using key r m
    by (simp add: analyzeAttackSurface_def Let_def analysis_call_def)
  have "m k = (case last_with_key (Number_toString p) ?cats k of
                 None \<Rightarrow> None
               | Some c \<Rightarrow> Some \<lparr>category = category c, confidence = confidence c,
                                       reasoning = reasoning c, icon = icon c\<rparr>)"
    if "k \<noteq> js ''__proto__''" for k
    using fill_map_lookup [OF m that] by (simp add: fields_of_def split: option.splits)
  with res show ?thesis by blast
qed


text \<open>
  A response with two records of index 1, the event that carries it as its text (the
  quotes of the response escaped), the chunk of that event, and a storage with an
  Anthropic key.
\<close>

definition dup_response :: jsstring where
  "dup_response = js ''[{\"index\":1,\"category\":\"A\"},{\"index\":1,\"category\":\"B\"}]''"

fun json_escape :: "jsstring \<Rightarrow> jsstring" where
  "json_escape [] = []"
| "json_escape (c # cs) =
     (if c = 0x22 \<or> c = 0x5C then 0x5C # c # json_escape cs else c # json_escape cs)"

definition dup_payload :: jsstring where
  "dup_payload =
     js ''{\"type\":\"content_block_delta\",\"delta\":{\"text\":\"'' @ json_escape dup_response
       @ js ''\"}}''"

definition dup_chunk :: "byte list" where
  "dup_chunk = map of_nat (js ''data: '' @ dup_payload) @ [0x0A]"

definition keyed_storage :: storage where
  "keyed_storage = [js ''anthropic_api_key'' \<mapsto> js ''k'']"

lemma decode_dup_chunk:
  "decode_stream new_TextDecoder dup_chunk =
     (\<lparr>utf8 = utf8_reset, bom_seen = True\<rparr>, (js ''data: '' @ dup_payload) @ [0x0A])"
  by (simp add: decode_eval dup_chunk_def dup_payload_def dup_response_def js_def)

lemma split_dup_line:
  "split ((js ''data: '' @ dup_payload) @ [0x0A]) 0x0A = [js ''data: '' @ dup_payload, []]"
  by (simp add: split_def dup_payload_def dup_response_def js_def)

lemma JSON_parse_dup_payload:
  "JSON_parse dup_payload =
     Some (JObject [(js ''type'', JString (js ''content_block_delta'')),
                    (js ''delta'', JObject [(js ''text'', JString dup_response)])])"
  by (simp add: dup_payload_def dup_response_def json_eval)

lemma claude_read_loop_dup_chunk:
  "claude_read_loop nts new_TextDecoder new_accumulator [dup_chunk] =
     \<lparr>fullText = dup_response, onUpdate_calls = [dup_response]\<rparr>"
proof -
  have "dup_payload \<noteq> js ''[DONE]''" by (simp add: dup_payload_def js_def)
  moreover have "dup_response \<noteq> []" by (simp add: dup_response_def js_def)
  ultimately have "claude_line nts new_accumulator (js ''data: '' @ dup_payload) =
      append_delta new_accumulator dup_response"
    using claude_line_event [OF JSON_parse_dup_payload] by simp
  then show ?thesis
    by (simp add: decode_dup_chunk split_dup_line claude_line_empty append_delta_def
        new_accumulator_def del: append_assoc)
qed

lemma jsonText_of_dup_response: "jsonText_of dup_response = dup_response"
  by (simp add: dup_response_def fence_eval js_def startsWith_def)

lemma JSON_parse_dup_response:
  "JSON_parse dup_response =
     Some (JArray [JObject [(js ''index'', JNumber (JsNum False 1 0)), (js ''category'', JString (js ''A''))],
                   JObject [(js ''index'', JNumber (JsNum False 1 0)), (js ''category'', JString (js ''B''))]])"
  by (simp add: dup_response_def json_eval)

lemma parseCategories_dup_response:
  "parseCategories dup_response =
     [\<lparr>category = JString (js ''A''), confidence = JString (js ''low''),
       reasoning = JString (js ''No reasoning provided''), icon = JString [0x2753],
       index = Some (JNumber (JsNum False 1 0))\<rparr>,
      \<lparr>category = JString (js ''B''), confidence = JString (js ''low''),
       reasoning = JString (js ''No reasoning provided''), icon = JString [0x2753],
       index = Some (JNumber (JsNum False 1 0))\<rparr>]"
proof -
  have "parseCategories dup_response =
      map defaulted [JObject [(js ''index'', JNumber (JsNum False 1 0)), (js ''category'', JString (js ''A''))],
                   JObject [(js ''index'', JNumber (JsNum False 1 0)), (js ''category'', JString (js ''B''))]]"
    by (simp add: parseCategories_def parseCategories_try_def jsonText_of_dup_response
        JSON_parse_dup_response make_category_defaulted)
  then show ?thesis
    by (simp add: defaulted_def field_or_def field_def own_property_def js_def)
qed

lemma getAISettings_keyed_storage:
  "getAISettings keyed_storage =
     \<lparr>provider = js ''anthropic'', apiKey = js ''k'', model = js ''claude-3-5-sonnet-20241022''\<rparr>"
  by (simp add: getAISettings_def getItem_or_def keyed_storage_def js_def)

lemma analysis_call_dup:
  "snd (analysis_call ascii_platform keyed_storage (\<lambda>r. Response True [dup_chunk]) []) =
     Inr \<lparr>fullText = dup_response, onUpdate_calls = [dup_response]\<rparr>"
proof -
  have "js ''anthropic'' \<noteq> js ''gemini''" by (simp add: js_def)
  then show ?thesis
    by (simp add: analysis_call_def getAISettings_keyed_storage streamExplanationWithSystem_def
        streamExplanationFromClaudeWithSystem_def claude_stream_def claude_read_loop_dup_chunk
        del: claude_read_loop.simps)
qed

lemma key_one:
  "property_key (Number_toString ascii_platform) (Some (JNumber (JsNum False (Suc 0) 0))) = Inr (js ''1'')"
  by (simp add: property_key_def ascii_platform_def decimal_toString_def strip_zeros.simps
      decimal.simps js_def)

text \<open>
  The call returns a map that holds under the key \<^verbatim>\<open>1\<close> the fields of the second
  record, and nothing under the key \<^verbatim>\<open>0\<close>.
\<close>

theorem C10_witness:
  "\<exists>m. snd (analyzeAttackSurface ascii_platform keyed_storage (\<lambda>r. Response True [dup_chunk]) [] True) = Inr m \<and>
       m (js ''1'') = Some \<lparr>category = JString (js ''B''), confidence = JString (js ''low''),
                            reasoning = JString (js ''No reasoning provided''), icon = JString [0x2753]\<rparr> \<and>
       m (js ''0'') = None"
proof -
  have k: "apiKey (getAISettings keyed_storage) \<noteq> []"
    by (simp add: getAISettings_keyed_storage js_def)
  have f: "fullResponse_of \<lparr>fullText = dup_response, onUpdate_calls = [dup_response]\<rparr> = dup_response"
    by (simp add: fullResponse_of_def)
  have ks: "\<forall>c \<in> set (parseCategories (fullResponse_of \<lparr>fullText = dup_response, onUpdate_calls = [dup_response]\<rparr>)).
             \<exists>s. property_key (Number_toString ascii_platform) (index c) = Inr s"
    by (simp add: f parseCategories_dup_response key_one)
  have p1: "js ''1'' \<noteq> js ''__proto__''" and p0: "js ''0'' \<noteq> js ''__proto__''"
    and d: "js ''1'' \<noteq> js ''0''"
    by (simp_all add: js_def)
  obtain m where m: "snd (analyzeAttackSurface ascii_platform keyed_storage (\<lambda>r. Response True [dup_chunk]) [] True) = Inr m"
    and look: "\<And>k. k \<noteq> js ''__proto__'' \<Longrightarrow>
              m k = (case last_with_key (Number_toString ascii_platform) (parseCategories dup_response) k of
                       None \<Rightarrow> None
                     | Some c \<Rightarrow> Some \<lparr>category = category c, confidence = confidence c,
                                       reasoning = reasoning c, icon = icon c\<rparr>)"
    using C10_category_map [OF k analysis_call_dup ks, of True] by (auto simp: f)
  have "m (js ''1'') = Some \<lparr>category = JString (js ''B''), confidence = JString (js ''low''),
                            reasoning = JString (js ''No reasoning provided''), icon = JString [0x2753]\<rparr>"
    using look [OF p1] by (simp add: last_with_key_def parseCategories_dup_response key_one)
  moreover have "m (js ''0'') = None"
    using look [OF p0] d by (simp add: last_with_key_def parseCategories_dup_response key_one)
  ultimately show ?thesis using m by blast
qed

end
